theory Spec2Isabelle
  imports Complex_Main "HOL-Library.Stream" "HOL-Library.Sublist" "HOL-Library.Log_Nat"
    "HOL-Library.Multiset" "HOL-Library.Product_Lexorder"
begin

section \<open>Data model\<close>

text \<open>
  The session store of \<^verbatim>\<open>conversation_manager.py\<close>, the chat turn of
  \<^verbatim>\<open>chat_handler.py\<close> and the event detection of \<^verbatim>\<open>event_recognizer.py\<close>.

  A \<^verbatim>\<open>datetime\<close> has microsecond resolution, so an instant is an integer number of
  microseconds and a \<^verbatim>\<open>timedelta\<close> is a difference of two of them.  The ISO string of a
  message's timestamp is rendered by the instant it prints.
\<close>

type_synonym time = int

text \<open>The values a Python dictionary of this program holds.\<close>

datatype any = PyNone | PyInt int | PyStr string | PyList "any list"

type_synonym pydict = "string \<rightharpoonup> any"

text \<open>
  The context dictionary of a session is returned by reference and mutated in place,
  so it lives in a store of dictionaries and a session holds its address.  A message
  list and a session are read and written through the manager only; they are values.
\<close>

type_synonym addr = nat

record message =
  role :: string
  content :: string
  timestamp :: time
  metadata :: pydict

text \<open>
  A Python number.  A \<^verbatim>\<open>float\<close> is a double: a finite one is rendered by the real
  number it denotes (the two zeros by \<open>0\<close>), and there are the two infinities and NaN.
  An \<^verbatim>\<open>int\<close> is unbounded; a \<^verbatim>\<open>bool\<close> is the integer it equals.
\<close>

datatype pyfloat = Finite real | PInf | NInf | NaN

datatype number = PInt int | PFloat pyfloat

text \<open>
  An event dictionary.  \<open>ev_timestamp\<close> is \<open>None\<close> when the key \<^verbatim>\<open>'timestamp'\<close> is
  missing.
\<close>

record event =
  ev_timestamp :: "number option"
  ev_frame_number :: "int option"
  event_type :: string
  description :: string
  objects :: "string list"
  severity :: string
  guideline_violation :: bool
  violation_details :: "string option"

record analysis =
  events :: "event list"
  summary :: string
  guidelines :: pydict
  analyzed_at :: time

record session =
  session_id :: string
  created_at :: time
  last_activity :: time
  conversation_history :: "message list"
  video_analysis :: "analysis option"
  context_ref :: addr

text \<open>
  The \<^verbatim>\<open>ConversationManager\<close> object (\<open>sessions\<close>, \<open>max_history\<close>,
  \<open>session_timeout\<close>) together with what it runs in: the store of dictionaries with its
  next free address, and the clock, the stream of the values that the coming calls of
  \<^verbatim>\<open>datetime.now()\<close> return.
\<close>

record world =
  sessions :: "string \<rightharpoonup> session"
  max_history :: int
  session_timeout :: time
  heap :: "addr \<Rightarrow> pydict"
  next_addr :: addr
  clock :: "time stream"

section \<open>Python primitives\<close>

text \<open>\<^verbatim>\<open>xs[i:]\<close>: a negative \<open>i\<close> counts from the end and is clamped at the start.\<close>

definition py_slice_from :: "'a list \<Rightarrow> int \<Rightarrow> 'a list" where
  "py_slice_from xs i =
     (if i < 0 then drop (nat (int (length xs) + i)) xs else drop (nat i) xs)"

text \<open>\<^verbatim>\<open>xs[a:b]\<close> for \<open>0 \<le> a\<close> and \<open>0 \<le> b\<close>, the only use the program makes of it.\<close>

definition py_slice :: "'a list \<Rightarrow> int \<Rightarrow> int \<Rightarrow> 'a list" where
  "py_slice xs a b = take (nat (b - a)) (drop (nat a) xs)"

text \<open>\<^verbatim>\<open>s.find(c)\<close> and \<^verbatim>\<open>s.rfind(c)\<close> for a one-character \<open>c\<close>: \<open>-1\<close> when absent.\<close>

fun py_find :: "char \<Rightarrow> string \<Rightarrow> int" where
  "py_find c [] = - 1"
| "py_find c (x # xs) =
     (if x = c then 0 else (let r = py_find c xs in if r = - 1 then - 1 else r + 1))"

definition py_rfind :: "char \<Rightarrow> string \<Rightarrow> int" where
  "py_rfind c s =
     (let r = py_find c (rev s) in if r = - 1 then - 1 else int (length s) - 1 - r)"

text \<open>\<^verbatim>\<open>str(n)\<close> of a length.\<close>

definition digit_char :: "nat \<Rightarrow> char" where
  "digit_char d = ''0123456789'' ! d"

function str_nat :: "nat \<Rightarrow> string" where
  "str_nat n = (if n < 10 then [digit_char n] else str_nat (n div 10) @ [digit_char (n mod 10)])"
  by pat_completeness auto
termination
  by (relation "measure id") auto

declare str_nat.simps [simp del]

text \<open>
  The nearest double of a real, a tie going to the even significand: 53 bits, the
  exponent of the last place not below \<open>-1074\<close>, and an infinity from \<open>2 ^ 1024\<close> on.
  For \<open>a > 0\<close>, \<open>exponent a\<close> is the integer \<open>e\<close> with \<open>2 ^ e \<le> a < 2 ^ (e + 1)\<close>.
\<close>

definition exponent :: "real \<Rightarrow> int" where
  "exponent a = (if 1 \<le> a then bitlen \<lfloor>a\<rfloor> - 1 else - bitlen (\<lceil>1 / a\<rceil> - 1))"

definition round_half_even :: "real \<Rightarrow> int" where
  "round_half_even x =
     (let f = \<lfloor>x\<rfloor>; d = x - of_int f
      in if d < 1 / 2 then f else if 1 / 2 < d then f + 1 else if even f then f else f + 1)"

definition round_double :: "real \<Rightarrow> pyfloat" where
  "round_double x =
     (if x = 0 then Finite 0
      else (let q = max (exponent \<bar>x\<bar> - 52) (- 1074);
                y = of_int (round_half_even (\<bar>x\<bar> / 2 powi q)) * 2 powi q
            in if 2 ^ 1024 \<le> y then (if 0 < x then PInf else NInf)
               else Finite (if 0 < x then y else - y)))"

text \<open>
  The conversion of an operand to \<^verbatim>\<open>float\<close>; \<open>None\<close> is the \<^verbatim>\<open>OverflowError\<close> of an
  integer too large for a double.
\<close>

definition to_float :: "number \<Rightarrow> pyfloat option" where
  "to_float a =
     (case a of
        PInt n \<Rightarrow> (case round_double (of_int n) of Finite r \<Rightarrow> Some (Finite r) | _ \<Rightarrow> None)
      | PFloat x \<Rightarrow> Some x)"

text \<open>
  \<^verbatim>\<open>a - b\<close>: exact on two integers; otherwise both operands become doubles and the
  difference is rounded.
\<close>

fun float_sub :: "pyfloat \<Rightarrow> pyfloat \<Rightarrow> pyfloat" where
  "float_sub (Finite a) (Finite b) = round_double (a - b)"
| "float_sub NaN b = NaN"
| "float_sub a NaN = NaN"
| "float_sub PInf PInf = NaN"
| "float_sub NInf NInf = NaN"
| "float_sub PInf b = PInf"
| "float_sub NInf b = NInf"
| "float_sub a PInf = NInf"
| "float_sub a NInf = PInf"

definition py_sub :: "number \<Rightarrow> number \<Rightarrow> number option" where
  "py_sub a b =
     (case (a, b) of
        (PInt m, PInt n) \<Rightarrow> Some (PInt (m - n))
      | _ \<Rightarrow>
          (case (to_float a, to_float b) of
             (Some x, Some y) \<Rightarrow> Some (PFloat (float_sub x y))
           | _ \<Rightarrow> None))"

text \<open>\<^verbatim>\<open>abs(a)\<close>.\<close>

fun float_abs :: "pyfloat \<Rightarrow> pyfloat" where
  "float_abs (Finite r) = Finite \<bar>r\<bar>"
| "float_abs PInf = PInf"
| "float_abs NInf = PInf"
| "float_abs NaN = NaN"

fun py_abs :: "number \<Rightarrow> number" where
  "py_abs (PInt n) = PInt \<bar>n\<bar>"
| "py_abs (PFloat x) = PFloat (float_abs x)"

text \<open>
  \<^verbatim>\<open>a < b\<close>, \<^verbatim>\<open>a == b\<close> and \<^verbatim>\<open>a <= b\<close>.  Every comparison with NaN is false; an
  integer and a double are compared by their exact values.
\<close>

definition exact :: "number \<Rightarrow> pyfloat" where
  "exact a = (case a of PInt n \<Rightarrow> Finite (of_int n) | PFloat x \<Rightarrow> x)"

fun float_lt :: "pyfloat \<Rightarrow> pyfloat \<Rightarrow> bool" where
  "float_lt NaN b = False"
| "float_lt a NaN = False"
| "float_lt a NInf = False"
| "float_lt NInf b = True"
| "float_lt PInf b = False"
| "float_lt a PInf = True"
| "float_lt (Finite r) (Finite s) = (r < s)"

definition py_lt :: "number \<Rightarrow> number \<Rightarrow> bool" where
  "py_lt a b = float_lt (exact a) (exact b)"

definition py_eq :: "number \<Rightarrow> number \<Rightarrow> bool" where
  "py_eq a b = (exact a \<noteq> NaN \<and> exact a = exact b)"

definition py_le :: "number \<Rightarrow> number \<Rightarrow> bool" where
  "py_le a b = (py_lt a b \<or> py_eq a b)"

text \<open>
  \<^verbatim>\<open>list.sort\<close>, which compares by \<open>lt\<close> only, as CPython runs it on a list of fewer than
  64 elements: the run at the start of the list is taken, ascending or strictly
  descending and then reversed, and every later element is inserted into it at the place
  that a bisection finds.  When \<open>lt\<close> orders the elements totally this is the stable
  sort, which is what \<^verbatim>\<open>list.sort\<close> returns on a list of any length; the merging of
  several runs, which CPython does from 64 elements on, is not rendered.
\<close>

fun run_ascending :: "('a \<Rightarrow> 'a \<Rightarrow> bool) \<Rightarrow> 'a \<Rightarrow> 'a list \<Rightarrow> 'a list \<times> 'a list" where
  "run_ascending lt p [] = ([], [])"
| "run_ascending lt p (x # xs) =
     (if lt x p then ([], x # xs)
      else (let (run, rest) = run_ascending lt x xs in (x # run, rest)))"

fun run_descending :: "('a \<Rightarrow> 'a \<Rightarrow> bool) \<Rightarrow> 'a \<Rightarrow> 'a list \<Rightarrow> 'a list \<times> 'a list" where
  "run_descending lt p [] = ([], [])"
| "run_descending lt p (x # xs) =
     (if lt x p then (let (run, rest) = run_descending lt x xs in (x # run, rest))
      else ([], x # xs))"

fun count_run :: "('a \<Rightarrow> 'a \<Rightarrow> bool) \<Rightarrow> 'a list \<Rightarrow> 'a list \<times> 'a list" where
  "count_run lt [] = ([], [])"
| "count_run lt [x] = ([x], [])"
| "count_run lt (x # y # ys) =
     (if lt y x then (let (run, rest) = run_descending lt y ys in (rev (x # y # run), rest))
      else (let (run, rest) = run_ascending lt y ys in (x # y # run, rest)))"

function bisect :: "('a \<Rightarrow> 'a \<Rightarrow> bool) \<Rightarrow> 'a \<Rightarrow> 'a list \<Rightarrow> nat \<Rightarrow> nat \<Rightarrow> nat" where
  "bisect lt pivot xs l r =
     (if l < r then
        (let p = l + (r - l) div 2 in
         if lt pivot (xs ! p) then bisect lt pivot xs l p else bisect lt pivot xs (p + 1) r)
      else l)"
  by pat_completeness auto
termination
  by (relation "measure (\<lambda>(lt, pivot, xs, l, r). r - l)") auto

declare bisect.simps [simp del]

definition binary_insert :: "('a \<Rightarrow> 'a \<Rightarrow> bool) \<Rightarrow> 'a list \<Rightarrow> 'a \<Rightarrow> 'a list" where
  "binary_insert lt xs pivot =
     (let l = bisect lt pivot xs 0 (length xs) in take l xs @ pivot # drop l xs)"

definition list_sort :: "('a \<Rightarrow> 'a \<Rightarrow> bool) \<Rightarrow> 'a list \<Rightarrow> 'a list" where
  "list_sort lt xs = (let (run, rest) = count_run lt xs in foldl (binary_insert lt) run rest)"

section \<open>The conversation manager\<close>

text \<open>\<^verbatim>\<open>datetime.now()\<close>: the next reading of the clock.\<close>

definition now :: "world \<Rightarrow> time \<times> world" where
  "now w = (shd (clock w), w\<lparr>clock := stl (clock w)\<rparr>)"

text \<open>
  \<^verbatim>\<open>__init__\<close>: \<^verbatim>\<open>timedelta(minutes=m)\<close> is \<open>m\<close> times sixty million microseconds, and it
  raises \<^verbatim>\<open>OverflowError\<close>, here \<open>None\<close>, when that is more than 999999999 days either
  way.
\<close>

definition init :: "int \<Rightarrow> int \<Rightarrow> time stream \<Rightarrow> world option" where
  "init mh minutes c =
     (if - 999999999 \<le> minutes div 1440 \<and> minutes div 1440 \<le> 999999999 then
        Some \<lparr>sessions = Map.empty, max_history = mh, session_timeout = minutes * 60000000,
              heap = (\<lambda>_. Map.empty), next_addr = 0, clock = c\<rparr>
      else None)"

text \<open>
  \<^verbatim>\<open>create_session\<close>; the identifier that \<^verbatim>\<open>uuid4\<close> draws is an argument.  The clock is
  read twice, and the empty context dictionary is a new object.
\<close>

definition create_session :: "string \<Rightarrow> world \<Rightarrow> string \<times> world" where
  "create_session i w =
     (let (t1, w1) = now w;
          (t2, w2) = now w1;
          a = next_addr w2;
          s = \<lparr>session_id = i, created_at = t1, last_activity = t2,
               conversation_history = [], video_analysis = None, context_ref = a\<rparr>
      in (i, w2\<lparr>sessions := (sessions w2)(i \<mapsto> s),
                heap := (heap w2)(a := Map.empty), next_addr := Suc a\<rparr>))"

definition clear_session :: "string \<Rightarrow> world \<Rightarrow> world" where
  "clear_session i w =
     (if sessions w i \<noteq> None then w\<lparr>sessions := (sessions w)(i := None)\<rparr> else w)"

text \<open>
  \<^verbatim>\<open>get_session\<close>.  An absent identifier reads no clock.  The returned session is the
  stored one, with its refreshed \<open>last_activity\<close>.
\<close>

definition get_session :: "string \<Rightarrow> world \<Rightarrow> session option \<times> world" where
  "get_session i w =
     (case sessions w i of
        None \<Rightarrow> (None, w)
      | Some s \<Rightarrow>
          (let (t1, w1) = now w in
           if t1 - last_activity s > session_timeout w1 then (None, clear_session i w1)
           else (let (t2, w2) = now w1;
                     s' = s\<lparr>last_activity := t2\<rparr>
                 in (Some s', w2\<lparr>sessions := (sessions w2)(i \<mapsto> s')\<rparr>))))"

text \<open>
  The trimming of \<^verbatim>\<open>add_message\<close>: the system messages, then the messages of the slice
  \<^verbatim>\<open>history[-(max_history * 2):]\<close> that are not among them.
\<close>

definition trim :: "int \<Rightarrow> message list \<Rightarrow> message list" where
  "trim mh h =
     (let system_messages = filter (\<lambda>m. role m = ''system'') h;
          recent_messages = py_slice_from h (- (mh * 2))
      in system_messages @ filter (\<lambda>m. m \<notin> set system_messages) recent_messages)"

text \<open>\<^verbatim>\<open>add_message\<close>; \<^verbatim>\<open>metadata or {}\<close> is the empty dictionary for \<^verbatim>\<open>None\<close>.\<close>

definition add_message ::
  "string \<Rightarrow> string \<Rightarrow> string \<Rightarrow> pydict option \<Rightarrow> world \<Rightarrow> world" where
  "add_message i r c md w =
     (case get_session i w of
        (None, w1) \<Rightarrow> w1
      | (Some s, w1) \<Rightarrow>
          (let (t, w2) = now w1;
               m = \<lparr>role = r, content = c, timestamp = t,
                    metadata = (case md of None \<Rightarrow> Map.empty | Some d \<Rightarrow> d)\<rparr>;
               h = conversation_history s @ [m];
               h' = (if int (length h) > max_history w2 * 2 then trim (max_history w2) h else h)
           in w2\<lparr>sessions := (sessions w2)(i \<mapsto> s\<lparr>conversation_history := h'\<rparr>)\<rparr>))"

text \<open>\<^verbatim>\<open>get_conversation_history\<close>: \<^verbatim>\<open>if limit:\<close> is false for \<^verbatim>\<open>None\<close> and for \<open>0\<close>.\<close>

definition get_conversation_history ::
  "string \<Rightarrow> int option \<Rightarrow> world \<Rightarrow> message list \<times> world" where
  "get_conversation_history i limit w =
     (case get_session i w of
        (None, w1) \<Rightarrow> ([], w1)
      | (Some s, w1) \<Rightarrow>
          (let history = conversation_history s in
           case limit of
             None \<Rightarrow> (history, w1)
           | Some l \<Rightarrow> if l \<noteq> 0 then (py_slice_from history (- l), w1) else (history, w1)))"

text \<open>\<^verbatim>\<open>store_video_analysis\<close>: the analysis is written, then \<^verbatim>\<open>add_message\<close> is called.\<close>

definition analysis_note :: "event list \<Rightarrow> string \<Rightarrow> string" where
  "analysis_note evs summ =
     ''Video analyzed. Found '' @ str_nat (length evs) @ '' events. Summary: ''
       @ take 200 summ @ ''...''"

definition store_video_analysis ::
  "string \<Rightarrow> event list \<Rightarrow> string \<Rightarrow> pydict \<Rightarrow> world \<Rightarrow> world" where
  "store_video_analysis i evs summ g w =
     (case get_session i w of
        (None, w1) \<Rightarrow> w1
      | (Some s, w1) \<Rightarrow>
          (let (t, w2) = now w1;
               a = \<lparr>events = evs, summary = summ, guidelines = g, analyzed_at = t\<rparr>;
               w3 = w2\<lparr>sessions := (sessions w2)(i \<mapsto> s\<lparr>video_analysis := Some a\<rparr>)\<rparr>
           in add_message i ''system'' (analysis_note evs summ)
                (Some [''type'' \<mapsto> PyStr ''video_analysis'']) w3))"

definition get_video_analysis :: "string \<Rightarrow> world \<Rightarrow> analysis option \<times> world" where
  "get_video_analysis i w =
     (case get_session i w of
        (None, w1) \<Rightarrow> (None, w1)
      | (Some s, w1) \<Rightarrow> (video_analysis s, w1))"

text \<open>\<^verbatim>\<open>update_context\<close> writes into the session's own dictionary.\<close>

definition update_context :: "string \<Rightarrow> string \<Rightarrow> any \<Rightarrow> world \<Rightarrow> world" where
  "update_context i k v w =
     (case get_session i w of
        (None, w1) \<Rightarrow> w1
      | (Some s, w1) \<Rightarrow> w1\<lparr>heap := (heap w1)(context_ref s := (heap w1 (context_ref s))(k \<mapsto> v))\<rparr>)"

text \<open>
  \<^verbatim>\<open>get_context\<close> returns \<^verbatim>\<open>session.get('context', {})\<close>, the session's dictionary itself
  (the key is always there); without a session it returns a new empty dictionary.
\<close>

definition get_context :: "string \<Rightarrow> world \<Rightarrow> addr \<times> world" where
  "get_context i w =
     (case get_session i w of
        (None, w1) \<Rightarrow>
          (next_addr w1,
           w1\<lparr>heap := (heap w1)(next_addr w1 := Map.empty), next_addr := Suc (next_addr w1)\<rparr>)
      | (Some s, w1) \<Rightarrow> (context_ref s, w1))"

text \<open>What a caller does with a dictionary it holds: read it, and write a key of it.\<close>

definition dict_read :: "addr \<Rightarrow> world \<Rightarrow> pydict" where
  "dict_read a w = heap w a"

definition dict_write :: "addr \<Rightarrow> string \<Rightarrow> any \<Rightarrow> world \<Rightarrow> world" where
  "dict_write a k v w = w\<lparr>heap := (heap w)(a := (heap w a)(k \<mapsto> v))\<rparr>"

section \<open>The chat handler\<close>

text \<open>
  \<^verbatim>\<open>_update_context_from_conversation\<close>: the topics whose keywords occur in the lowered
  message, in the order of the keyword dictionary.
\<close>

definition lower_char :: "char \<Rightarrow> char" where
  "lower_char c =
     (case map_of (zip ''ABCDEFGHIJKLMNOPQRSTUVWXYZ'' ''abcdefghijklmnopqrstuvwxyz'') c of
        None \<Rightarrow> c
      | Some l \<Rightarrow> l)"

definition lower :: "string \<Rightarrow> string" where
  "lower s = map lower_char s"

fun contains :: "string \<Rightarrow> string \<Rightarrow> bool" where
  "contains [] word = (word = [])"
| "contains (x # xs) word = (prefix word (x # xs) \<or> contains xs word)"

definition topic_keywords :: "(string \<times> string list) list" where
  "topic_keywords =
     [(''traffic'', [''traffic'', ''vehicle'', ''car'', ''pedestrian'', ''light'', ''road'']),
      (''safety'', [''safety'', ''violation'', ''danger'', ''hazard'', ''risk'']),
      (''timeline'', [''when'', ''time'', ''timestamp'', ''sequence'', ''order'']),
      (''summary'', [''summary'', ''overview'', ''summarize'', ''brief''])]"

definition topics_of :: "string \<Rightarrow> string list" where
  "topics_of msg =
     map fst (filter (\<lambda>(topic, ws). list_ex (contains (lower msg)) ws) topic_keywords)"

definition update_context_from_conversation ::
  "string \<Rightarrow> string \<Rightarrow> string \<Rightarrow> world \<Rightarrow> world" where
  "update_context_from_conversation i msg response w =
     (let topics = topics_of msg in
      if topics \<noteq> [] then update_context i ''current_topics'' (PyList (map PyStr topics)) w
      else w)"

definition apology :: string where
  "apology =
     ''I apologize, but I encountered an error processing your message. Please try again.''"

text \<open>
  \<^verbatim>\<open>process_message\<close>.  \<^verbatim>\<open>_build_messages\<close> is pure and its result goes to the chat
  model only, so the two are one argument \<open>respond\<close>, of the history, the analysis, the
  context dictionary as it is then, and the message; \<open>None\<close> is an exception raised by
  either, which the handler of \<^verbatim>\<open>process_message\<close> catches.
\<close>

type_synonym responder =
  "message list \<Rightarrow> analysis option \<Rightarrow> pydict \<Rightarrow> string \<Rightarrow> string option"

definition process_message :: "responder \<Rightarrow> string \<Rightarrow> string \<Rightarrow> world \<Rightarrow> string \<times> world" where
  "process_message respond i msg w =
     (let w1 = add_message i ''user'' msg None w;
          (history, w2) = get_conversation_history i (Some 10) w1;
          (va, w3) = get_video_analysis i w2;
          (ctx, w4) = get_context i w3
      in case respond history va (heap w4 ctx) msg of
           None \<Rightarrow> (apology, w4)
         | Some response \<Rightarrow>
             (let w5 = add_message i ''assistant'' response None w4;
                  w6 = update_context_from_conversation i msg response w5
              in (response, w6)))"

section \<open>The event recognizer\<close>

text \<open>
  A frame dictionary; the video processor gives it the timestamp
  \<^verbatim>\<open>frame_count / fps\<close>, a \<^verbatim>\<open>float\<close>, or the integer \<open>0\<close>.
\<close>

record frame =
  frame_number :: int
  fr_timestamp :: number
  image :: string

text \<open>
  \<^verbatim>\<open>_find_closest_frame\<close>; \<open>None\<close> is the \<^verbatim>\<open>IndexError\<close> of \<^verbatim>\<open>frames[0]\<close> or the
  \<^verbatim>\<open>OverflowError\<close> of a subtraction.
\<close>

fun closest_loop :: "number \<Rightarrow> frame list \<Rightarrow> int \<Rightarrow> number \<Rightarrow> int option" where
  "closest_loop ts [] closest_frame min_diff = Some closest_frame"
| "closest_loop ts (f # fs) closest_frame min_diff =
     (case py_sub (fr_timestamp f) ts of
        None \<Rightarrow> None
      | Some d \<Rightarrow>
          (let diff = py_abs d in
           if py_lt diff min_diff then closest_loop ts fs (frame_number f) diff
           else closest_loop ts fs closest_frame min_diff))"

definition find_closest_frame :: "number \<Rightarrow> frame list \<Rightarrow> int option" where
  "find_closest_frame ts frames =
     (case frames of
        [] \<Rightarrow> None
      | f # fs \<Rightarrow>
          (case py_sub (fr_timestamp f) ts of
             None \<Rightarrow> None
           | Some d \<Rightarrow> closest_loop ts fs (frame_number f) (py_abs d)))"

text \<open>
  What \<^verbatim>\<open>json.loads\<close> makes of the bracketed text: it raises \<^verbatim>\<open>JSONDecodeError\<close>, or it
  returns a list of event dictionaries in each of which the timestamp is a number
  (\<^verbatim>\<open>NaN\<close> and the infinities are numbers of its input) or is missing, or it raises
  another exception or returns anything else, on which the loop over the events raises.
\<close>

datatype decoded = JSONDecodeError | Malformed | Events "event list"

text \<open>The event of the fallback branch.\<close>

definition fallback_event :: "frame \<Rightarrow> event" where
  "fallback_event f =
     \<lparr>ev_timestamp = Some (fr_timestamp f), ev_frame_number = Some (frame_number f),
      event_type = ''scene'', description = ''Scene captured'', objects = [],
      severity = ''low'', guideline_violation = False, violation_details = None\<rparr>"

text \<open>
  The loop that adds the frame number to each decoded event;
  \<^verbatim>\<open>event.get('timestamp', 0)\<close> is the integer \<open>0\<close> for a missing key.
\<close>

fun add_frame_numbers :: "frame list \<Rightarrow> event list \<Rightarrow> event list option" where
  "add_frame_numbers frames [] = Some []"
| "add_frame_numbers frames (e # es) =
     (case find_closest_frame (case ev_timestamp e of None \<Rightarrow> PInt 0 | Some t \<Rightarrow> t) frames of
        None \<Rightarrow> None
      | Some n \<Rightarrow>
          (case add_frame_numbers frames es of
             None \<Rightarrow> None
           | Some es' \<Rightarrow> Some (e\<lparr>ev_frame_number := Some n\<rparr> # es')))"

text \<open>
  \<^verbatim>\<open>_analyze_frame_batch\<close>.  The request is a function of the frames, so the vision model
  is a function \<open>vision\<close> of them, \<open>None\<close> when the call raises; \<open>loads\<close> is
  \<^verbatim>\<open>json.loads\<close>.  Every exception but \<^verbatim>\<open>JSONDecodeError\<close> reaches the outer handler,
  which returns the empty list.
\<close>

definition analyze_frame_batch ::
  "(frame list \<Rightarrow> string option) \<Rightarrow> (string \<Rightarrow> decoded) \<Rightarrow> frame list \<Rightarrow> event list" where
  "analyze_frame_batch vision loads frames =
     (case vision frames of
        None \<Rightarrow> []
      | Some response_text \<Rightarrow>
          (let start_idx = py_find (CHR ''['') response_text;
               end_idx = py_rfind (CHR '']'') response_text + 1
           in if start_idx \<noteq> - 1 \<and> end_idx > start_idx then
                (case loads (py_slice response_text start_idx end_idx) of
                   JSONDecodeError \<Rightarrow> map fallback_event frames
                 | Malformed \<Rightarrow> []
                 | Events detected_events \<Rightarrow>
                     (case add_frame_numbers frames detected_events of
                        None \<Rightarrow> []
                      | Some evs \<Rightarrow> evs))
              else []))"

text \<open>The batches \<^verbatim>\<open>frames[i:i+5]\<close> for \<open>i\<close> in \<^verbatim>\<open>range(0, len(frames), 5)\<close>.\<close>

function frame_batches :: "'a list \<Rightarrow> 'a list list" where
  "frame_batches xs = (if xs = [] then [] else take 5 xs # frame_batches (drop 5 xs))"
  by pat_completeness auto
termination
  by (relation "measure length") auto

declare frame_batches.simps [simp del]

text \<open>
  \<^verbatim>\<open>detect_events\<close>.  \<^verbatim>\<open>list.sort\<close> computes the key of every element first, so an event
  without timestamp raises \<^verbatim>\<open>KeyError\<close> and the handler returns the empty list; then it
  compares the timestamps with \<^verbatim>\<open><\<close>.
\<close>

definition ts_lt :: "event \<Rightarrow> event \<Rightarrow> bool" where
  "ts_lt a b =
     (case (ev_timestamp a, ev_timestamp b) of
        (Some x, Some y) \<Rightarrow> py_lt x y
      | _ \<Rightarrow> False)"

definition detect_events ::
  "(frame list \<Rightarrow> string option) \<Rightarrow> (string \<Rightarrow> decoded) \<Rightarrow> frame list \<Rightarrow> event list" where
  "detect_events vision loads frames =
     (let evs = concat (map (analyze_frame_batch vision loads) (frame_batches frames)) in
      if list_ex (\<lambda>e. ev_timestamp e = None) evs then []
      else list_sort ts_lt evs)"

section \<open>Names for the statements\<close>

text \<open>The message that \<^verbatim>\<open>store_video_analysis\<close> hands to \<^verbatim>\<open>add_message\<close>, stamped \<open>t\<close>.\<close>

definition analysis_message :: "event list \<Rightarrow> string \<Rightarrow> time \<Rightarrow> message" where
  "analysis_message evs summ t =
     \<lparr>role = ''system'', content = analysis_note evs summ, timestamp = t,
      metadata = [''type'' \<mapsto> PyStr ''video_analysis'']\<rparr>"

text \<open>The events of all the batches of \<^verbatim>\<open>detect_events\<close>, before the sort.\<close>

definition batch_events ::
  "(frame list \<Rightarrow> string option) \<Rightarrow> (string \<Rightarrow> decoded) \<Rightarrow> frame list \<Rightarrow> event list" where
  "batch_events vision loads frames =
     concat (map (analyze_frame_batch vision loads) (frame_batches frames))"

text \<open>
  The comparisons \<^verbatim>\<open>a['timestamp'] <= b['timestamp']\<close> and \<^verbatim>\<open>e['timestamp'] == k\<close> on
  events, false when a timestamp is missing; and the events whose timestamp is a number
  other than NaN.
\<close>

definition ts_le :: "event \<Rightarrow> event \<Rightarrow> bool" where
  "ts_le a b =
     (case (ev_timestamp a, ev_timestamp b) of
        (Some x, Some y) \<Rightarrow> py_le x y
      | _ \<Rightarrow> False)"

definition same_ts :: "number \<Rightarrow> event \<Rightarrow> bool" where
  "same_ts k e = (case ev_timestamp e of Some x \<Rightarrow> py_eq x k | None \<Rightarrow> False)"

definition orderable :: "event \<Rightarrow> bool" where
  "orderable e = (case ev_timestamp e of Some x \<Rightarrow> exact x \<noteq> NaN | None \<Rightarrow> False)"

text \<open>
  The place of a double on the extended line, the infinities at its two ends, and the
  place of the timestamp of an event; on values other than NaN the comparisons above are
  those of the places.
\<close>

fun float_rank :: "pyfloat \<Rightarrow> int \<times> real" where
  "float_rank (Finite r) = (0, r)"
| "float_rank PInf = (1, 0)"
| "float_rank NInf = (- 1, 0)"
| "float_rank NaN = (2, 0)"

definition ts_rank :: "event \<Rightarrow> int \<times> real" where
  "ts_rank e = (case ev_timestamp e of Some x \<Rightarrow> float_rank (exact x) | None \<Rightarrow> (2, 0))"

text \<open>
  The dictionaries in use are the allocated ones: every context dictionary of the store
  has an address below \<open>next_addr\<close>.
\<close>

definition allocated :: "world \<Rightarrow> bool" where
  "allocated w = (\<forall>i s. sessions w i = Some s \<longrightarrow> context_ref s < next_addr w)"

section \<open>Concrete stores\<close>

text \<open>
  A store with the one session \<open>''a''\<close>, created at instant \<open>0\<close>, with a timeout of thirty
  minutes, used to run the operations on explicit inputs.
\<close>

definition demo_session :: "message list \<Rightarrow> session" where
  "demo_session h =
     \<lparr>session_id = ''a'', created_at = 0, last_activity = 0,
      conversation_history = h, video_analysis = None, context_ref = 0\<rparr>"

definition demo_world :: "int \<Rightarrow> message list \<Rightarrow> time stream \<Rightarrow> world" where
  "demo_world mh h c =
     \<lparr>sessions = [''a'' \<mapsto> demo_session h], max_history = mh, session_timeout = 1800000000,
      heap = (\<lambda>_. Map.empty), next_addr = 1, clock = c\<rparr>"

definition user_msg :: "string \<Rightarrow> message" where
  "user_msg c = \<lparr>role = ''user'', content = c, timestamp = 0, metadata = Map.empty\<rparr>"

text \<open>An event with a timestamp and a description.\<close>

definition demo_event :: "real \<Rightarrow> string \<Rightarrow> event" where
  "demo_event t d =
     \<lparr>ev_timestamp = Some (PFloat (Finite t)), ev_frame_number = Some 0, event_type = ''other'',
      description = d,
      objects = [], severity = ''info'', guideline_violation = False, violation_details = None\<rparr>"

text \<open>
  One frame, and a decoder that finds three events, two of them with one timestamp and
  the earliest in the middle.
\<close>

definition one_frame :: "frame list" where
  "one_frame = [\<lparr>frame_number = 0, fr_timestamp = PFloat (Finite 0), image = ''''\<rparr>]"

definition three_events :: "string \<Rightarrow> decoded" where
  "three_events txt =
     Events [demo_event 2 ''late'', demo_event 1 ''early'', demo_event 2 ''last'']"

text \<open>A chat model whose every call raises.\<close>

definition failing :: responder where
  "failing history va ctx msg = None"

text \<open>
  A system message; a decoder whose second event has no timestamp, and one whose second
  event has the timestamp NaN.
\<close>

definition sys_msg :: "string \<Rightarrow> message" where
  "sys_msg c = \<lparr>role = ''system'', content = c, timestamp = 0, metadata = Map.empty\<rparr>"

definition untimed_events :: "string \<Rightarrow> decoded" where
  "untimed_events txt =
     Events [demo_event 2 ''late'', (demo_event 1 ''early'')\<lparr>ev_timestamp := None\<rparr>]"

definition nan_events :: "string \<Rightarrow> decoded" where
  "nan_events txt =
     Events [demo_event 2 ''late'', (demo_event 0 ''unknown'')\<lparr>ev_timestamp := Some (PFloat NaN)\<rparr>,
       demo_event 1 ''early'']"

section \<open>Reading a session\<close>

text \<open>
  The concrete store is the one of a manager with a timeout of thirty minutes that holds
  session \<open>''a''\<close>; a timeout of \<open>10 ^ 13\<close> minutes is refused.
\<close>

lemma init_demo:
  "map_option (\<lambda>w. w\<lparr>sessions := [''a'' \<mapsto> demo_session h], next_addr := 1\<rparr>) (init mh 30 c)
     = Some (demo_world mh h c)"
  by (simp add: init_def demo_world_def)

lemma init_overflow:
  "init mh 10000000000000 c = None"
  by (simp add: init_def)

lemma get_session_absent:
  "sessions w i = None \<Longrightarrow> get_session i w = (None, w)"
  by (simp add: get_session_def)

lemma get_session_expired:
  "sessions w i = Some s \<Longrightarrow> clock w = t1 ## c \<Longrightarrow> t1 - last_activity s > session_timeout w \<Longrightarrow>
   get_session i w = (None, w\<lparr>sessions := (sessions w)(i := None), clock := c\<rparr>)"
  by (simp add: get_session_def now_def clear_session_def)

lemma get_session_live:
  "sessions w i = Some s \<Longrightarrow> clock w = t1 ## t2 ## c \<Longrightarrow>
   t1 - last_activity s \<le> session_timeout w \<Longrightarrow>
   get_session i w =
     (Some (s\<lparr>last_activity := t2\<rparr>),
      w\<lparr>sessions := (sessions w)(i \<mapsto> s\<lparr>last_activity := t2\<rparr>), clock := c\<rparr>)"
  by (simp add: get_session_def now_def Let_def)

text \<open>
  C8.  \<^verbatim>\<open>clear_session\<close> removes the record of the identifier when there is one and
  leaves the store as it is when there is none; no other record changes, and clearing
  twice is clearing once.  The function has no failing branch: the deletion is guarded by
  the membership test.
\<close>

theorem clear_session_idempotent:
  "sessions (clear_session i w) i = None
   \<and> (\<forall>j. j \<noteq> i \<longrightarrow> sessions (clear_session i w) j = sessions w j)
   \<and> (sessions w i = None \<longrightarrow> clear_session i w = w)
   \<and> clear_session i (clear_session i w) = clear_session i w"
  by (simp add: clear_session_def)

theorem clear_session_idempotent_witness:
  "''b'' \<noteq> ''a''
   \<and> sessions (demo_world 10 [] (sconst 0)) ''b'' = None
   \<and> clear_session ''b'' (demo_world 10 [] (sconst 0)) = demo_world 10 [] (sconst 0)
   \<and> sessions (clear_session ''b'' (demo_world 10 [] (sconst 0))) ''a''
       = Some (demo_session [])
   \<and> sessions (clear_session ''a'' (demo_world 10 [] (sconst 0))) ''a'' = None"
  using clear_session_idempotent [of "''b''" "demo_world 10 [] (sconst 0)"]
    clear_session_idempotent [of "''a''" "demo_world 10 [] (sconst 0)"]
  by (simp add: demo_world_def)

text \<open>
  C3.  A session whose record is older than the timeout at the reading \<open>t1\<close> of the clock
  is evicted by \<^verbatim>\<open>get_session\<close>, which returns \<^verbatim>\<open>None\<close>; the next \<^verbatim>\<open>get_session\<close> on
  the same identifier finds no record and returns \<^verbatim>\<open>None\<close> again, changing nothing.  On an
  absent identifier \<^verbatim>\<open>get_session\<close> returns \<^verbatim>\<open>None\<close> and changes nothing.  Neither path
  has a failing branch.
\<close>

theorem get_session_expiry:
  "(sessions w i = None \<longrightarrow> get_session i w = (None, w))
   \<and> (sessions w i = Some s \<and> clock w = t1 ## c \<and> session_timeout w < t1 - last_activity s \<longrightarrow>
        get_session i w = (None, w\<lparr>sessions := (sessions w)(i := None), clock := c\<rparr>)
        \<and> get_session i (w\<lparr>sessions := (sessions w)(i := None), clock := c\<rparr>)
            = (None, w\<lparr>sessions := (sessions w)(i := None), clock := c\<rparr>))"
  by (simp add: get_session_absent get_session_expired)

theorem get_session_expiry_witness:
  "sessions (demo_world 10 [] (1800000001 ## sconst 0)) ''a'' = Some (demo_session [])
   \<and> session_timeout (demo_world 10 [] (1800000001 ## sconst 0))
       < 1800000001 - last_activity (demo_session [])
   \<and> fst (get_session ''a'' (demo_world 10 [] (1800000001 ## sconst 0))) = None
   \<and> sessions (snd (get_session ''a'' (demo_world 10 [] (1800000001 ## sconst 0)))) ''a'' = None
   \<and> fst (get_session ''a''
            (snd (get_session ''a'' (demo_world 10 [] (1800000001 ## sconst 0))))) = None
   \<and> get_session ''b'' (demo_world 10 [] (sconst 0)) = (None, demo_world 10 [] (sconst 0))"
  using get_session_expiry [of "demo_world 10 [] (1800000001 ## sconst 0)" "''a''"
      "demo_session []" 1800000001 "sconst 0"]
    get_session_expiry [of "demo_world 10 [] (sconst 0)" "''b''"]
  by (simp add: demo_world_def demo_session_def)

text \<open>
  C5.  A session whose record is within the timeout at the reading \<open>t1\<close> of the clock is
  returned by \<^verbatim>\<open>get_session\<close> with \<open>last_activity\<close> set to the next reading \<open>t2\<close> and
  every other field as it was, and the store holds that record.  A second \<^verbatim>\<open>get_session\<close>
  that reads the clock at \<open>t3\<close> measures the age from \<open>t2\<close>: when \<open>t3 - t2\<close> is within the
  timeout it returns the session, however close to the timeout the first access was.
\<close>

theorem get_session_refresh:
  assumes "sessions w i = Some s" and "clock w = t1 ## t2 ## t3 ## t4 ## c"
    and "t1 - last_activity s \<le> session_timeout w"
  shows "get_session i w =
           (Some (s\<lparr>last_activity := t2\<rparr>),
            w\<lparr>sessions := (sessions w)(i \<mapsto> s\<lparr>last_activity := t2\<rparr>), clock := t3 ## t4 ## c\<rparr>)
         \<and> (t3 - t2 \<le> session_timeout w \<longrightarrow>
              fst (get_session i (snd (get_session i w))) = Some (s\<lparr>last_activity := t4\<rparr>))"
proof -
  let ?w' = "w\<lparr>sessions := (sessions w)(i \<mapsto> s\<lparr>last_activity := t2\<rparr>), clock := t3 ## t4 ## c\<rparr>"
  have first: "get_session i w = (Some (s\<lparr>last_activity := t2\<rparr>), ?w')"
    using assms by (rule get_session_live)
  have "fst (get_session i ?w') = Some (s\<lparr>last_activity := t4\<rparr>)"
    if "t3 - t2 \<le> session_timeout w"
    using that get_session_live [of ?w' i "s\<lparr>last_activity := t2\<rparr>" t3 t4 c] by simp
  with first show ?thesis by simp
qed

theorem get_session_refresh_witness:
  "sessions (demo_world 10 [] (1800000000 ## 1800000000 ## 1800000000 ## 1800000005 ## sconst 0))
       ''a'' = Some (demo_session [])
   \<and> 1800000000 - last_activity (demo_session [])
       \<le> session_timeout
            (demo_world 10 [] (1800000000 ## 1800000000 ## 1800000000 ## 1800000005 ## sconst 0))
   \<and> fst (get_session ''a''
            (demo_world 10 [] (1800000000 ## 1800000000 ## 1800000000 ## 1800000005 ## sconst 0)))
        = Some ((demo_session [])\<lparr>last_activity := 1800000000\<rparr>)
   \<and> fst (get_session ''a'' (snd (get_session ''a''
            (demo_world 10 [] (1800000000 ## 1800000000 ## 1800000000 ## 1800000005 ## sconst 0)))))
        = Some ((demo_session [])\<lparr>last_activity := 1800000005\<rparr>)"
  using get_session_refresh [of
      "demo_world 10 [] (1800000000 ## 1800000000 ## 1800000000 ## 1800000005 ## sconst 0)"
      "''a''" "demo_session []" 1800000000 1800000000 1800000000 1800000005 "sconst 0"]
  by (simp add: demo_world_def demo_session_def get_session_def now_def Let_def)

section \<open>Appending to the history\<close>

text \<open>
  With a positive \<open>max_history\<close> the slice is the last \<open>2 * max_history\<close> messages, and
  a message of it is among the system messages exactly when its role is \<open>system\<close>.
\<close>

lemma trim_positive:
  assumes "0 < mh"
  shows "trim mh h =
     filter (\<lambda>m. role m = ''system'') h
       @ filter (\<lambda>m. role m \<noteq> ''system'') (drop (length h - nat (2 * mh)) h)"
proof -
  have sl: "py_slice_from h (- (mh * 2)) = drop (length h - nat (2 * mh)) h"
    using assms by (simp add: py_slice_from_def nat_diff_distrib' mult.commute)
  have "filter (\<lambda>m. m \<notin> set (filter (\<lambda>m. role m = ''system'') h)) (drop n h)
        = filter (\<lambda>m. role m \<noteq> ''system'') (drop n h)" for n
    by (rule filter_cong) (auto dest: in_set_dropD)
  with sl show ?thesis by (simp add: trim_def)
qed

lemma add_message_live:
  assumes "sessions w i = Some s" and "clock w = t1 ## t2 ## t3 ## c"
    and "t1 - last_activity s \<le> session_timeout w"
  shows "add_message i r ct md w =
     w\<lparr>sessions := (sessions w)(i \<mapsto> s\<lparr>last_activity := t2,
          conversation_history :=
            (let h = conversation_history s @
                 [\<lparr>role = r, content = ct, timestamp = t3,
                   metadata = (case md of None \<Rightarrow> Map.empty | Some d \<Rightarrow> d)\<rparr>]
             in if int (length h) > max_history w * 2 then trim (max_history w) h else h)\<rparr>),
        clock := c\<rparr>"
  using get_session_live [OF assms(1) _ assms(3), of t2 "t3 ## c"] assms(2)
  by (simp add: add_message_def now_def Let_def)

lemma add_message_absent:
  "sessions w i = None \<Longrightarrow> add_message i r ct md w = w"
  by (simp add: add_message_def get_session_absent)

lemma add_message_expired:
  "sessions w i = Some s \<Longrightarrow> clock w = t1 ## c \<Longrightarrow> t1 - last_activity s > session_timeout w \<Longrightarrow>
   add_message i r ct md w = w\<lparr>sessions := (sessions w)(i := None), clock := c\<rparr>"
  by (simp add: add_message_def get_session_expired)

text \<open>
  C1, as the code has it.  On a live session and with a positive \<open>max_history\<close>,
  \<^verbatim>\<open>add_message\<close> appends the message; when the length then exceeds \<open>2 * max_history\<close>
  the history becomes all the system messages, in insertion order, followed by the
  messages of the last \<open>2 * max_history\<close> that are not system messages, in insertion
  order, so that no message is kept twice; otherwise the history is left untrimmed.
  The system messages come first, also those appended after a kept message of another
  role.
\<close>

theorem add_message_trims:
  assumes "sessions w i = Some s" and "clock w = t1 ## t2 ## t3 ## c"
    and "t1 - last_activity s \<le> session_timeout w" and "0 < max_history w"
  shows "map_option conversation_history (sessions (add_message i r ct md w) i) =
     Some (let h = conversation_history s @
                 [\<lparr>role = r, content = ct, timestamp = t3,
                   metadata = (case md of None \<Rightarrow> Map.empty | Some d \<Rightarrow> d)\<rparr>]
           in if int (length h) > 2 * max_history w
              then filter (\<lambda>m. role m = ''system'') h
                     @ filter (\<lambda>m. role m \<noteq> ''system'') (drop (length h - nat (2 * max_history w)) h)
              else h)"
  using assms(4) by (simp add: add_message_live [OF assms(1-3)] Let_def trim_positive mult.commute)

theorem add_message_trims_witness:
  "map_option conversation_history
     (sessions (add_message ''a'' ''system'' ''note'' None
        (demo_world 1 [user_msg ''q0'', user_msg ''q1''] (sconst 0))) ''a'')
   = Some [\<lparr>role = ''system'', content = ''note'', timestamp = 0, metadata = Map.empty\<rparr>,
           user_msg ''q1'']"
  using add_message_trims [of "demo_world 1 [user_msg ''q0'', user_msg ''q1''] (sconst 0)" "''a''"
      "demo_session [user_msg ''q0'', user_msg ''q1'']" 0 0 0 "sconst 0" "''system''" "''note''" None]
  by (simp add: demo_world_def demo_session_def user_msg_def  Let_def
      stream.expand)

text \<open>
  C1 as stated fails on the order: with \<open>max_history = 1\<close> and the history \<open>q0, q1\<close> of
  two user messages, appending a system message gives the history \<open>note, q1\<close>, which
  is not in the order of insertion \<open>q0, q1, note\<close>.
\<close>

theorem add_message_order_counterexample:
  "map_option conversation_history
     (sessions (add_message ''a'' ''system'' ''note'' None
        (demo_world 1 [user_msg ''q0'', user_msg ''q1''] (sconst 0))) ''a'')
   = Some [\<lparr>role = ''system'', content = ''note'', timestamp = 0, metadata = Map.empty\<rparr>,
           user_msg ''q1'']
   \<and> \<not> subseq [\<lparr>role = ''system'', content = ''note'', timestamp = 0, metadata = Map.empty\<rparr>,
           user_msg ''q1'']
        ([user_msg ''q0'', user_msg ''q1'']
           @ [\<lparr>role = ''system'', content = ''note'', timestamp = 0, metadata = Map.empty\<rparr>])"
  by (simp add: demo_world_def demo_session_def user_msg_def add_message_def
      get_session_def now_def Let_def trim_def py_slice_from_def)

section \<open>Reading the history\<close>

lemma get_conversation_history_live:
  assumes "sessions w i = Some s" and "clock w = t1 ## t2 ## c"
    and "t1 - last_activity s \<le> session_timeout w"
  shows "fst (get_conversation_history i limit w) =
           (case limit of None \<Rightarrow> conversation_history s
            | Some l \<Rightarrow> if l \<noteq> 0 then py_slice_from (conversation_history s) (- l)
                        else conversation_history s)"
  by (simp add: get_conversation_history_def get_session_live [OF assms] Let_def
      split: option.split)

text \<open>
  C10.  \<^verbatim>\<open>get_conversation_history\<close> returns the empty list when the session is absent
  or expired.  On a live session a strictly positive limit returns the trailing
  messages, as many as the limit or the whole history when it is shorter, in order;
  the limit \<open>0\<close> returns the whole history, as no limit does.
\<close>

theorem get_conversation_history_limit:
  "(sessions w i = None \<longrightarrow> get_conversation_history i limit w = ([], w))
   \<and> (sessions w i = Some s \<and> clock w = t1 ## c \<and> session_timeout w < t1 - last_activity s \<longrightarrow>
        fst (get_conversation_history i limit w) = [])
   \<and> (sessions w i = Some s \<and> clock w = t1 ## t2 ## c \<and> t1 - last_activity s \<le> session_timeout w \<longrightarrow>
        (0 < l \<longrightarrow> fst (get_conversation_history i (Some l) w)
                      = drop (length (conversation_history s) - nat l) (conversation_history s)
                  \<and> length (fst (get_conversation_history i (Some l) w))
                      = min (nat l) (length (conversation_history s)))
        \<and> fst (get_conversation_history i (Some 0) w) = conversation_history s
        \<and> fst (get_conversation_history i None w) = conversation_history s)"
proof (intro conjI impI)
  assume "sessions w i = None"
  then show "get_conversation_history i limit w = ([], w)"
    by (simp add: get_conversation_history_def get_session_absent)
next
  assume "sessions w i = Some s \<and> clock w = t1 ## c \<and> session_timeout w < t1 - last_activity s"
  then show "fst (get_conversation_history i limit w) = []"
    by (simp add: get_conversation_history_def get_session_expired)
next
  assume live: "sessions w i = Some s \<and> clock w = t1 ## t2 ## c \<and> t1 - last_activity s \<le> session_timeout w"
  assume "0 < l"
  with live show pos: "fst (get_conversation_history i (Some l) w)
      = drop (length (conversation_history s) - nat l) (conversation_history s)"
    by (simp add: get_conversation_history_live [of w i s t1 t2 c] py_slice_from_def
        nat_diff_distrib')
  show "length (fst (get_conversation_history i (Some l) w))
      = min (nat l) (length (conversation_history s))"
    unfolding pos by simp
next
  assume "sessions w i = Some s \<and> clock w = t1 ## t2 ## c \<and> t1 - last_activity s \<le> session_timeout w"
  then show "fst (get_conversation_history i (Some 0) w) = conversation_history s"
    by (simp add: get_conversation_history_live [of w i s t1 t2 c])
next
  assume "sessions w i = Some s \<and> clock w = t1 ## t2 ## c \<and> t1 - last_activity s \<le> session_timeout w"
  then show "fst (get_conversation_history i None w) = conversation_history s"
    by (simp add: get_conversation_history_live [of w i s t1 t2 c])
qed

theorem get_conversation_history_limit_witness:
  "fst (get_conversation_history ''a'' (Some 2)
         (demo_world 10 [user_msg ''q0'', user_msg ''q1'', user_msg ''q2''] (sconst 0)))
     = [user_msg ''q1'', user_msg ''q2'']
   \<and> fst (get_conversation_history ''a'' (Some 0)
         (demo_world 10 [user_msg ''q0'', user_msg ''q1'', user_msg ''q2''] (sconst 0)))
     = [user_msg ''q0'', user_msg ''q1'', user_msg ''q2'']
   \<and> fst (get_conversation_history ''a'' None
         (demo_world 10 [user_msg ''q0'', user_msg ''q1'', user_msg ''q2''] (sconst 0)))
     = [user_msg ''q0'', user_msg ''q1'', user_msg ''q2'']
   \<and> fst (get_conversation_history ''a'' (Some 2)
         (demo_world 10 [user_msg ''q0'', user_msg ''q1'', user_msg ''q2''] (sconst 1800000001)))
     = []
   \<and> fst (get_conversation_history ''b'' (Some 2)
         (demo_world 10 [user_msg ''q0'', user_msg ''q1'', user_msg ''q2''] (sconst 0)))
     = []"
  using get_conversation_history_limit [of
      "demo_world 10 [user_msg ''q0'', user_msg ''q1'', user_msg ''q2''] (sconst 0)" "''a''" "Some 2"
      "demo_session [user_msg ''q0'', user_msg ''q1'', user_msg ''q2'']" 0 "sconst 0" 0 2]
    get_conversation_history_limit [of
      "demo_world 10 [user_msg ''q0'', user_msg ''q1'', user_msg ''q2''] (sconst 1800000001)" "''a''" "Some 2"
      "demo_session [user_msg ''q0'', user_msg ''q1'', user_msg ''q2'']" 1800000001 "sconst 1800000001"]
    get_conversation_history_limit [of
      "demo_world 10 [user_msg ''q0'', user_msg ''q1'', user_msg ''q2''] (sconst 0)" "''b''" "Some 2"]
  by (simp add: demo_world_def demo_session_def stream.expand)

section \<open>Attaching an analysis\<close>

lemma store_video_analysis_live:
  assumes "sessions w i = Some s" and "clock w = t1 ## t2 ## t3 ## t4 ## t5 ## t6 ## c"
    and "t1 - last_activity s \<le> session_timeout w" and "t4 - t2 \<le> session_timeout w"
  shows "store_video_analysis i evs summ g w =
     w\<lparr>sessions := (sessions w)(i \<mapsto> s\<lparr>video_analysis :=
            Some \<lparr>events = evs, summary = summ, guidelines = g, analyzed_at = t3\<rparr>,
          last_activity := t5,
          conversation_history :=
            (let h = conversation_history s @ [analysis_message evs summ t6]
             in if int (length h) > max_history w * 2 then trim (max_history w) h else h)\<rparr>),
        clock := c\<rparr>"
proof -
  let ?s2 = "s\<lparr>last_activity := t2,
      video_analysis := Some \<lparr>events = evs, summary = summ, guidelines = g, analyzed_at = t3\<rparr>\<rparr>"
  let ?w3 = "w\<lparr>sessions := (sessions w)(i \<mapsto> ?s2), clock := t4 ## t5 ## t6 ## c\<rparr>"
  have first: "get_session i w =
      (Some (s\<lparr>last_activity := t2\<rparr>),
       w\<lparr>sessions := (sessions w)(i \<mapsto> s\<lparr>last_activity := t2\<rparr>),
         clock := t3 ## t4 ## t5 ## t6 ## c\<rparr>)"
    using assms(1-3) by (rule get_session_live)
  have second: "add_message i ''system'' (analysis_note evs summ)
        (Some [''type'' \<mapsto> PyStr ''video_analysis'']) ?w3 =
      ?w3\<lparr>sessions := (sessions ?w3)(i \<mapsto> ?s2\<lparr>last_activity := t5,
          conversation_history :=
            (let h = conversation_history ?s2 @
                 [\<lparr>role = ''system'', content = analysis_note evs summ, timestamp = t6,
                   metadata = (case Some [''type'' \<mapsto> PyStr ''video_analysis''] of
                                 None \<Rightarrow> Map.empty | Some d \<Rightarrow> d)\<rparr>]
             in if int (length h) > max_history ?w3 * 2 then trim (max_history ?w3) h else h)\<rparr>),
        clock := c\<rparr>"
    using assms(4) by (intro add_message_live) simp_all
  have step: "store_video_analysis i evs summ g w =
      add_message i ''system'' (analysis_note evs summ)
        (Some [''type'' \<mapsto> PyStr ''video_analysis'']) ?w3"
    unfolding store_video_analysis_def first
    by (simp add: now_def Let_def) (rule arg_cong [where f = "add_message _ _ _ _"], simp)
  show ?thesis
    unfolding step second by (simp add: Let_def analysis_message_def)
qed

text \<open>
  The length of a history after an append with a positive \<open>max_history\<close>: one more than
  before, less the messages that the trimming drops, which are the messages other than
  system messages before the last \<open>2 * max_history\<close>.
\<close>

lemma appended_length:
  assumes "0 < mh"
  shows "length (let h = old @ [m] in if int (length h) > mh * 2 then trim mh h else h)
     = length old + 1
       - length (filter (\<lambda>m. role m \<noteq> ''system'') (take (length old + 1 - nat (2 * mh)) old))"
proof (cases "int (length (old @ [m])) > mh * 2")
  case False
  then have "length old + 1 - nat (2 * mh) = 0" by simp
  with False show ?thesis by (simp add: Let_def)
next
  case True
  define h where "h = old @ [m]"
  define d where "d = length h - nat (2 * mh)"
  have d: "d = length old + 1 - nat (2 * mh)" by (simp add: d_def h_def)
  have "d \<le> length old" using assms by (simp add: d)
  then have tk: "take d h = take d old" by (simp add: h_def)
  have total: "length (filter (\<lambda>m. role m = ''system'') h)
        + length (filter (\<lambda>m. role m \<noteq> ''system'') h) = length h"
    using sum_length_filter_compl [of "\<lambda>m. role m = ''system''" h] by simp
  have "filter (\<lambda>m. role m \<noteq> ''system'') h
      = filter (\<lambda>m. role m \<noteq> ''system'') (take d h) @ filter (\<lambda>m. role m \<noteq> ''system'') (drop d h)"
    by (metis append_take_drop_id filter_append)
  then have parts: "length (filter (\<lambda>m. role m \<noteq> ''system'') h)
      = length (filter (\<lambda>m. role m \<noteq> ''system'') (take d old))
        + length (filter (\<lambda>m. role m \<noteq> ''system'') (drop d h))"
    by (simp add: tk)
  have "length (trim mh h)
      = length (filter (\<lambda>m. role m = ''system'') h)
        + length (filter (\<lambda>m. role m \<noteq> ''system'') (drop d h))"
    by (simp add: trim_positive [OF assms] d_def)
  also have "\<dots> = length h - length (filter (\<lambda>m. role m \<noteq> ''system'') (take d old))"
    using total parts by simp
  finally show ?thesis using True by (simp add: Let_def h_def d)
qed

text \<open>
  C9, as the code has it.  On an absent session \<^verbatim>\<open>store_video_analysis\<close> changes
  nothing; on an expired one it evicts the record and does nothing else.  On a session
  that is live at its own access and at the access of the nested \<^verbatim>\<open>add_message\<close> it
  overwrites the analysis and hands one system message to \<^verbatim>\<open>add_message\<close>, with the
  number of events, the first 200 characters of the summary and the metadata
  \<^verbatim>\<open>{'type': 'video_analysis'}\<close>; the history is the old one with that message
  appended, trimmed by the rule of \<^verbatim>\<open>add_message\<close> when its length exceeds
  \<open>2 * max_history\<close>.  With a positive \<open>max_history\<close> the new length is the old one
  plus one, less the number of messages other than system messages among the first
  \<open>length + 1 - 2 * max_history\<close> of the old history; so the history is one longer
  exactly when all of these are system messages, which is so whenever the old history is
  shorter than \<open>2 * max_history\<close>.
\<close>

theorem store_video_analysis_effect:
  "(sessions w i = None \<longrightarrow> store_video_analysis i evs summ g w = w)
   \<and> (sessions w i = Some s \<and> clock w = t1 ## c \<and> session_timeout w < t1 - last_activity s \<longrightarrow>
        store_video_analysis i evs summ g w
          = w\<lparr>sessions := (sessions w)(i := None), clock := c\<rparr>)
   \<and> (sessions w i = Some s \<and> clock w = t1 ## t2 ## t3 ## t4 ## t5 ## t6 ## c
        \<and> t1 - last_activity s \<le> session_timeout w \<and> t4 - t2 \<le> session_timeout w \<longrightarrow>
        sessions (store_video_analysis i evs summ g w) i =
          Some (s\<lparr>last_activity := t5,
            video_analysis :=
              Some \<lparr>events = evs, summary = summ, guidelines = g, analyzed_at = t3\<rparr>,
            conversation_history :=
              (let h = conversation_history s @ [analysis_message evs summ t6]
               in if int (length h) > max_history w * 2 then trim (max_history w) h else h)\<rparr>)
        \<and> (0 < max_history w \<longrightarrow>
             map_option (length \<circ> conversation_history)
               (sessions (store_video_analysis i evs summ g w) i)
             = Some (length (conversation_history s) + 1
                 - length (filter (\<lambda>m. role m \<noteq> ''system'')
                     (take (length (conversation_history s) + 1 - nat (2 * max_history w))
                        (conversation_history s))))
             \<and> (map_option (length \<circ> conversation_history)
                  (sessions (store_video_analysis i evs summ g w) i)
                 = Some (length (conversation_history s) + 1))
               = list_all (\<lambda>m. role m = ''system'')
                   (take (length (conversation_history s) + 1 - nat (2 * max_history w))
                      (conversation_history s)))
        \<and> (int (length (conversation_history s)) < max_history w * 2 \<longrightarrow>
             map_option (length \<circ> conversation_history)
               (sessions (store_video_analysis i evs summ g w) i)
             = Some (length (conversation_history s) + 1)))"
proof (intro conjI impI)
  assume "sessions w i = None"
  then show "store_video_analysis i evs summ g w = w"
    by (simp add: store_video_analysis_def get_session_absent)
next
  assume "sessions w i = Some s \<and> clock w = t1 ## c \<and> session_timeout w < t1 - last_activity s"
  then show "store_video_analysis i evs summ g w
      = w\<lparr>sessions := (sessions w)(i := None), clock := c\<rparr>"
    by (simp add: store_video_analysis_def get_session_expired)
next
  assume live: "sessions w i = Some s \<and> clock w = t1 ## t2 ## t3 ## t4 ## t5 ## t6 ## c
        \<and> t1 - last_activity s \<le> session_timeout w \<and> t4 - t2 \<le> session_timeout w"
  then show "sessions (store_video_analysis i evs summ g w) i =
          Some (s\<lparr>last_activity := t5,
            video_analysis :=
              Some \<lparr>events = evs, summary = summ, guidelines = g, analyzed_at = t3\<rparr>,
            conversation_history :=
              (let h = conversation_history s @ [analysis_message evs summ t6]
               in if int (length h) > max_history w * 2 then trim (max_history w) h else h)\<rparr>)"
    by (simp add: store_video_analysis_live [of w i s t1 t2 t3 t4 t5 t6 c])
next
  assume live: "sessions w i = Some s \<and> clock w = t1 ## t2 ## t3 ## t4 ## t5 ## t6 ## c
        \<and> t1 - last_activity s \<le> session_timeout w \<and> t4 - t2 \<le> session_timeout w"
  assume pos: "0 < max_history w"
  define old where "old = conversation_history s"
  define dropped where
    "dropped = filter (\<lambda>m. role m \<noteq> ''system'') (take (length old + 1 - nat (2 * max_history w)) old)"
  have len: "map_option (length \<circ> conversation_history)
               (sessions (store_video_analysis i evs summ g w) i)
             = Some (length old + 1 - length dropped)"
    using live appended_length [OF pos, of old "analysis_message evs summ t6"]
    by (simp add: store_video_analysis_live [of w i s t1 t2 t3 t4 t5 t6 c] old_def dropped_def)
  then show "map_option (length \<circ> conversation_history)
               (sessions (store_video_analysis i evs summ g w) i)
             = Some (length (conversation_history s) + 1
                 - length (filter (\<lambda>m. role m \<noteq> ''system'')
                     (take (length (conversation_history s) + 1 - nat (2 * max_history w))
                        (conversation_history s))))"
    by (simp add: old_def dropped_def)
  have "length dropped \<le> length old"
    unfolding dropped_def by (rule order_trans [OF length_filter_le]) simp
  then have "(length old + 1 - length dropped = length old + 1) = (length dropped = 0)"
    by linarith
  then have "(length old + 1 - length dropped = length old + 1) = (dropped = [])"
    by simp
  also have "\<dots> = list_all (\<lambda>m. role m = ''system'')
      (take (length old + 1 - nat (2 * max_history w)) old)"
    by (simp add: dropped_def filter_empty_conv list_all_iff)
  finally show "(map_option (length \<circ> conversation_history)
                  (sessions (store_video_analysis i evs summ g w) i)
                 = Some (length (conversation_history s) + 1))
               = list_all (\<lambda>m. role m = ''system'')
                   (take (length (conversation_history s) + 1 - nat (2 * max_history w))
                      (conversation_history s))"
    unfolding len by (simp add: old_def)
next
  assume live: "sessions w i = Some s \<and> clock w = t1 ## t2 ## t3 ## t4 ## t5 ## t6 ## c
        \<and> t1 - last_activity s \<le> session_timeout w \<and> t4 - t2 \<le> session_timeout w"
  assume "int (length (conversation_history s)) < max_history w * 2"
  with live show "map_option (length \<circ> conversation_history)
               (sessions (store_video_analysis i evs summ g w) i)
             = Some (length (conversation_history s) + 1)"
    by (simp add: store_video_analysis_live [of w i s t1 t2 t3 t4 t5 t6 c] Let_def)
qed

theorem store_video_analysis_effect_witness:
  "sessions (store_video_analysis ''a'' [demo_event 5 ''light''] ''A car'' Map.empty
       (demo_world 10 [user_msg ''q0''] (sconst 0))) ''a''
     = Some ((demo_session [user_msg ''q0'', analysis_message [demo_event 5 ''light''] ''A car'' 0])
          \<lparr>video_analysis := Some \<lparr>events = [demo_event 5 ''light''], summary = ''A car'',
              guidelines = Map.empty, analyzed_at = 0\<rparr>\<rparr>)
   \<and> content (analysis_message [demo_event 5 ''light''] ''A car'' 0)
       = ''Video analyzed. Found 1 events. Summary: A car...''
   \<and> map_option (length \<circ> conversation_history)
       (sessions (store_video_analysis ''a'' [] ''A car'' Map.empty
          (demo_world 1 [sys_msg ''s0'', user_msg ''q1''] (sconst 0))) ''a'') = Some 3
   \<and> map_option (length \<circ> conversation_history)
       (sessions (store_video_analysis ''a'' [] ''A car'' Map.empty
          (demo_world 1 [user_msg ''q0'', user_msg ''q1''] (sconst 0))) ''a'') = Some 2
   \<and> store_video_analysis ''b'' [] ''A car'' Map.empty (demo_world 10 [] (sconst 0))
       = demo_world 10 [] (sconst 0)
   \<and> sessions (store_video_analysis ''a'' [] ''A car'' Map.empty
       (demo_world 10 [] (sconst 1800000001))) ''a'' = None"
  using store_video_analysis_effect [of "demo_world 10 [user_msg ''q0''] (sconst 0)" "''a''"
      "[demo_event 5 ''light'']" "''A car''" Map.empty "demo_session [user_msg ''q0'']"
      0 "sconst 0" 0 0 0 0 0]
    store_video_analysis_effect [of "demo_world 1 [sys_msg ''s0'', user_msg ''q1''] (sconst 0)"
      "''a''" "[]" "''A car''" Map.empty "demo_session [sys_msg ''s0'', user_msg ''q1'']"
      0 "sconst 0" 0 0 0 0 0]
    store_video_analysis_effect [of "demo_world 1 [user_msg ''q0'', user_msg ''q1''] (sconst 0)"
      "''a''" "[]" "''A car''" Map.empty "demo_session [user_msg ''q0'', user_msg ''q1'']"
      0 "sconst 0" 0 0 0 0 0]
    store_video_analysis_effect [of "demo_world 10 [] (sconst 0)" "''b''" "[]" "''A car''" Map.empty]
    store_video_analysis_effect [of "demo_world 10 [] (sconst 1800000001)" "''a''" "[]" "''A car''"
      Map.empty "demo_session []" 1800000001 "sconst 1800000001"]
  by (simp add: demo_world_def demo_session_def stream.expand Let_def user_msg_def sys_msg_def
      analysis_message_def analysis_note_def str_nat.simps digit_char_def trim_def
      py_slice_from_def)

text \<open>
  C9 as stated fails twice.  With \<open>max_history = 1\<close> and a history of two user
  messages the attachment trims, and the history has two messages before and after.
  On an expired session the record is removed from the store.
\<close>

theorem store_video_analysis_growth_counterexample:
  "map_option (length \<circ> conversation_history)
     (sessions (demo_world 1 [user_msg ''q0'', user_msg ''q1''] (sconst 0)) ''a'') = Some 2
   \<and> map_option (length \<circ> conversation_history)
     (sessions (store_video_analysis ''a'' [] ''A car'' Map.empty
        (demo_world 1 [user_msg ''q0'', user_msg ''q1''] (sconst 0))) ''a'') = Some 2
   \<and> sessions (demo_world 1 [] (sconst 1800000001)) ''a'' = Some (demo_session [])
   \<and> sessions (store_video_analysis ''a'' [] ''A car'' Map.empty
        (demo_world 1 [] (sconst 1800000001))) ''a'' = None"
  by (simp add: demo_world_def demo_session_def user_msg_def store_video_analysis_def
      add_message_def get_session_def clear_session_def now_def Let_def trim_def
      py_slice_from_def)

section \<open>The order of the stored events\<close>

lemma get_video_analysis_live:
  assumes "sessions w i = Some s" and "clock w = t1 ## t2 ## c"
    and "t1 - last_activity s \<le> session_timeout w"
  shows "fst (get_video_analysis i w) = video_analysis s"
  by (simp add: get_video_analysis_def get_session_live [OF assms])

text \<open>
  The sort, on elements that \<open>lt\<close> compares as a function \<open>f\<close> into a linear order
  does: the run at the start is sorted, a strictly descending one has no two elements
  of one key, the bisection finds the place behind the elements that are not greater, and
  so the result is sorted, holds the same elements, and keeps the elements of one key in
  their order.
\<close>

lemma run_ascending_append:
  "run_ascending lt p xs = (run, rest) \<Longrightarrow> run @ rest = xs"
  by (induction xs arbitrary: p run rest) (auto split: if_splits prod.splits)

lemma run_descending_append:
  "run_descending lt p xs = (run, rest) \<Longrightarrow> run @ rest = xs"
  by (induction xs arbitrary: p run rest) (auto split: if_splits prod.splits)

lemma run_ascending_sorted:
  fixes f :: "'a \<Rightarrow> 'b :: linorder"
  assumes "run_ascending lt p xs = (run, rest)"
    and "\<forall>a \<in> set (p # xs). \<forall>b \<in> set (p # xs). lt a b = (f a < f b)"
  shows "sorted (map f (p # run))"
  using assms
proof (induction xs arbitrary: p run rest)
  case Nil
  then show ?case by simp
next
  case (Cons x xs)
  show ?case
  proof (cases "lt x p")
    case True
    with Cons.prems show ?thesis by simp
  next
    case False
    obtain r q where rq: "run_ascending lt x xs = (r, q)" by (cases "run_ascending lt x xs")
    with False Cons.prems have run: "run = x # r" by simp
    have "sorted (map f (x # r))"
      using Cons.IH [OF rq] Cons.prems(2) by simp
    moreover have "f p \<le> f x" using False Cons.prems(2) by (simp add: not_less)
    ultimately show ?thesis unfolding run by (auto simp: order_trans)
  qed
qed

lemma run_descending_strict:
  fixes f :: "'a \<Rightarrow> 'b :: linorder"
  assumes "run_descending lt p xs = (run, rest)"
    and "\<forall>a \<in> set (p # xs). \<forall>b \<in> set (p # xs). lt a b = (f a < f b)"
  shows "sorted_wrt (\<lambda>a b. f b < f a) (p # run)"
  using assms
proof (induction xs arbitrary: p run rest)
  case Nil
  then show ?case by simp
next
  case (Cons x xs)
  show ?case
  proof (cases "lt x p")
    case False
    with Cons.prems show ?thesis by simp
  next
    case True
    obtain r q where rq: "run_descending lt x xs = (r, q)" by (cases "run_descending lt x xs")
    with True Cons.prems have run: "run = x # r" by simp
    have "sorted_wrt (\<lambda>a b. f b < f a) (x # r)"
      using Cons.IH [OF rq] Cons.prems(2) by simp
    moreover have "f x < f p" using True Cons.prems(2) by simp
    ultimately show ?thesis unfolding run by (auto intro: less_trans)
  qed
qed


lemma strict_descending_filter:
  fixes f :: "'a \<Rightarrow> 'b :: linorder"
  assumes "sorted_wrt (\<lambda>a b. f b < f a) zs"
  shows "filter (\<lambda>x. f x = k) (rev zs) = filter (\<lambda>x. f x = k) zs"
  using assms
proof (induction zs)
  case Nil
  then show ?case by simp
next
  case (Cons z zs)
  show ?case
  proof (cases "f z = k")
    case True
    have "filter (\<lambda>x. f x = k) zs = []"
      using Cons.prems True by (auto simp: filter_empty_conv)
    with Cons True show ?thesis by simp
  next
    case False
    with Cons show ?thesis by simp
  qed
qed

lemma count_run_append:
  "count_run lt xs = (run, rest) \<Longrightarrow> mset run + mset rest = mset xs"
proof (induction lt xs rule: count_run.induct)
  case (3 lt x y ys)
  show ?case
  proof (cases "lt y x")
    case True
    obtain r q where rq: "run_descending lt y ys = (r, q)" by (cases "run_descending lt y ys")
    from run_descending_append [OF rq] have "r @ q = ys" .
    then have "mset r + mset q = mset ys" by (metis mset_append)
    with 3 True rq show ?thesis by auto
  next
    case False
    obtain r q where rq: "run_ascending lt y ys = (r, q)" by (cases "run_ascending lt y ys")
    from run_ascending_append [OF rq] have "r @ q = ys" .
    then have "mset r + mset q = mset ys" by (metis mset_append)
    with 3 False rq show ?thesis by auto
  qed
qed auto

lemma count_run_sorted:
  fixes f :: "'a \<Rightarrow> 'b :: linorder"
  assumes "count_run lt xs = (run, rest)"
    and "\<forall>a \<in> set xs. \<forall>b \<in> set xs. lt a b = (f a < f b)"
  shows "sorted (map f run)"
    and "filter (\<lambda>x. f x = k) run @ filter (\<lambda>x. f x = k) rest = filter (\<lambda>x. f x = k) xs"
proof -
  have "sorted (map f run)
      \<and> filter (\<lambda>x. f x = k) run @ filter (\<lambda>x. f x = k) rest = filter (\<lambda>x. f x = k) xs"
    using assms
  proof (induction lt xs rule: count_run.induct)
    case (3 lt x y ys)
    show ?case
    proof (cases "lt y x")
      case True
      obtain r q where rq: "run_descending lt y ys = (r, q)" by (cases "run_descending lt y ys")
      have ys: "r @ q = ys" using run_descending_append [OF rq] .
      have yx: "f y < f x" using True 3(2) by simp
      have d: "sorted_wrt (\<lambda>a b. f b < f a) (y # r)"
        using run_descending_strict [OF rq, of f] 3(2) by simp
      then have d': "sorted_wrt (\<lambda>a b. f b < f a) (x # y # r)"
        using yx by (auto intro: less_trans)
      have run: "run = rev (x # y # r)" and rest: "rest = q"
        using 3(1) True rq by simp_all
      have "sorted_wrt (\<lambda>a b. f a < f b) (rev (x # y # r))"
        using d' unfolding sorted_wrt_rev .
      then have "sorted_wrt (\<lambda>a b. f a \<le> f b) (rev (x # y # r))"
        by (rule sorted_wrt_mono_rel [rotated]) simp
      then have s: "sorted (map f run)" unfolding run sorted_map .
      have "filter (\<lambda>x. f x = k) run = filter (\<lambda>x. f x = k) (x # y # r)"
        unfolding run using d' by (rule strict_descending_filter)
      then have "filter (\<lambda>x. f x = k) run @ filter (\<lambda>x. f x = k) rest
          = filter (\<lambda>x. f x = k) (x # y # r @ q)"
        unfolding rest by simp
      with s ys show ?thesis by simp
    next
      case False
      obtain r q where rq: "run_ascending lt y ys = (r, q)" by (cases "run_ascending lt y ys")
      have ys: "r @ q = ys" using run_ascending_append [OF rq] .
      have xy: "f x \<le> f y" using False 3(2) by (simp add: not_less)
      have a: "sorted (map f (y # r))"
        using run_ascending_sorted [OF rq, of f] 3(2) by simp
      then have a': "sorted (map f (x # y # r))"
        using xy by (auto intro: order_trans)
      have run: "run = x # y # r" and rest: "rest = q"
        using 3(1) False rq by simp_all
      have "filter (\<lambda>x. f x = k) run @ filter (\<lambda>x. f x = k) rest
          = filter (\<lambda>x. f x = k) (x # y # r @ q)"
        unfolding run rest by simp
      with a' ys run show ?thesis by simp
    qed
  qed auto
  then show "sorted (map f run)"
    and "filter (\<lambda>x. f x = k) run @ filter (\<lambda>x. f x = k) rest = filter (\<lambda>x. f x = k) xs"
    by simp_all
qed

lemma bisect_range:
  "l \<le> r \<Longrightarrow> l \<le> bisect lt pivot xs l r \<and> bisect lt pivot xs l r \<le> r"
proof (induction lt pivot xs l r rule: bisect.induct)
  case (1 lt pivot xs l r)
  show ?case
  proof (cases "l < r")
    case False
    with 1(3) show ?thesis by (subst bisect.simps, subst (2) bisect.simps) simp
  next
    case True
    define p where "p = l + (r - l) div 2"
    have lp: "l \<le> p" and pr: "p < r" using True by (simp_all add: p_def)
    show ?thesis
    proof (cases "lt pivot (xs ! p)")
      case lt: True
      have "l \<le> bisect lt pivot xs l p \<and> bisect lt pivot xs l p \<le> p"
        using 1(1) [OF True p_def lt lp] .
      moreover have "bisect lt pivot xs l r = bisect lt pivot xs l p"
        by (subst bisect.simps) (use True lt in \<open>simp add: p_def Let_def\<close>)
      ultimately show ?thesis using pr by simp
    next
      case ge: False
      have "p + 1 \<le> bisect lt pivot xs (p + 1) r \<and> bisect lt pivot xs (p + 1) r \<le> r"
        using 1(2) [OF True p_def ge] pr by simp
      moreover have "bisect lt pivot xs l r = bisect lt pivot xs (p + 1) r"
        by (subst bisect.simps) (use True ge in \<open>simp add: p_def Let_def\<close>)
      ultimately show ?thesis using lp by simp
    qed
  qed
qed

lemma bisect_bound:
  fixes f :: "'a \<Rightarrow> 'b :: linorder"
  assumes "sorted (map f xs)" and "l \<le> r" and "r \<le> length xs"
    and "\<forall>i < length xs. lt pivot (xs ! i) = (f pivot < f (xs ! i))"
    and "\<forall>i < l. f (xs ! i) \<le> f pivot"
    and "\<forall>i. r \<le> i \<and> i < length xs \<longrightarrow> f pivot < f (xs ! i)"
  shows "(\<forall>i < bisect lt pivot xs l r. f (xs ! i) \<le> f pivot)
       \<and> (\<forall>i. bisect lt pivot xs l r \<le> i \<and> i < length xs \<longrightarrow> f pivot < f (xs ! i))"
  using assms
proof (induction lt pivot xs l r rule: bisect.induct)
  case (1 lt pivot xs l r)
  show ?case
  proof (cases "l < r")
    case False
    then have "bisect lt pivot xs l r = l" by (subst bisect.simps) simp
    with 1(4-) False show ?thesis by simp
  next
    case True
    define p where "p = l + (r - l) div 2"
    have lp: "l \<le> p" and pr: "p < r" using True by (simp_all add: p_def)
    have plen: "p < length xs" using pr 1(5) by simp
    have mono: "f (xs ! i) \<le> f (xs ! j)" if "i \<le> j" "j < length xs" for i j
      using 1(3) that by (simp add: sorted_iff_nth_mono)
    show ?thesis
    proof (cases "lt pivot (xs ! p)")
      case lt: True
      have eq: "bisect lt pivot xs l r = bisect lt pivot xs l p"
        by (subst bisect.simps) (use True lt in \<open>simp add: p_def Let_def\<close>)
      have fp: "f pivot < f (xs ! p)" using lt 1(6) plen by simp
      have "\<forall>i. p \<le> i \<and> i < length xs \<longrightarrow> f pivot < f (xs ! i)"
        using fp mono by (meson less_le_trans)
      then show ?thesis
        unfolding eq using 1(1) [OF True p_def lt 1(3) lp _ 1(6) 1(7)] plen by simp
    next
      case ge: False
      have eq: "bisect lt pivot xs l r = bisect lt pivot xs (p + 1) r"
        by (subst bisect.simps) (use True ge in \<open>simp add: p_def Let_def\<close>)
      have fp: "f (xs ! p) \<le> f pivot" using ge 1(6) plen by (simp add: not_less)
      have "\<forall>i < p + 1. f (xs ! i) \<le> f pivot"
        using fp mono plen by (metis Suc_eq_plus1 less_Suc_eq_le order_trans)
      then show ?thesis
        unfolding eq using 1(2) [OF True p_def ge 1(3) _ 1(5) 1(6) _ 1(8)] pr by simp
    qed
  qed
qed

lemma binary_insert_sorted:
  fixes f :: "'a \<Rightarrow> 'b :: linorder"
  assumes "sorted (map f xs)"
    and "\<forall>b \<in> set xs. lt pivot b = (f pivot < f b)"
  shows "sorted (map f (binary_insert lt xs pivot))"
    and "filter (\<lambda>x. f x = k) (binary_insert lt xs pivot) = filter (\<lambda>x. f x = k) (xs @ [pivot])"
    and "mset (binary_insert lt xs pivot) = mset xs + {#pivot#}"
proof -
  define m where "m = bisect lt pivot xs 0 (length xs)"
  have ins: "binary_insert lt xs pivot = take m xs @ pivot # drop m xs"
    by (simp add: binary_insert_def m_def Let_def)
  have mlen: "m \<le> length xs"
    using bisect_range [of 0 "length xs" lt pivot xs] by (simp add: m_def)
  have b: "(\<forall>i < m. f (xs ! i) \<le> f pivot)
       \<and> (\<forall>i. m \<le> i \<and> i < length xs \<longrightarrow> f pivot < f (xs ! i))"
    unfolding m_def using assms by (intro bisect_bound) auto
  have lo: "\<forall>x \<in> set (take m xs). f x \<le> f pivot"
    using b mlen by (auto simp: in_set_conv_nth)
  have hi: "\<forall>x \<in> set (drop m xs). f pivot < f x"
    using b mlen by (auto simp: in_set_conv_nth)
  have st: "sorted (map f (take m xs))" "sorted (map f (drop m xs))"
    using assms(1) by (simp_all add: sorted_wrt_take sorted_wrt_drop sorted_map)
  have cross: "\<forall>x \<in> set (take m xs). \<forall>y \<in> set (drop m xs). f x \<le> f y"
    using lo hi by (meson less_imp_le order_trans)
  show "sorted (map f (binary_insert lt xs pivot))"
    unfolding ins using st lo hi cross by (auto simp: sorted_append less_imp_le)
  show "mset (binary_insert lt xs pivot) = mset xs + {#pivot#}"
    unfolding ins
    by (metis add_mset_add_single append_take_drop_id mset.simps(2) mset_append union_mset_add_mset_right)
  have split: "filter (\<lambda>x. f x = k) xs
      = filter (\<lambda>x. f x = k) (take m xs) @ filter (\<lambda>x. f x = k) (drop m xs)"
    by (metis append_take_drop_id filter_append)
  show "filter (\<lambda>x. f x = k) (binary_insert lt xs pivot) = filter (\<lambda>x. f x = k) (xs @ [pivot])"
  proof (cases "f pivot = k")
    case True
    have "filter (\<lambda>x. f x = k) (drop m xs) = []"
      using hi True by (auto simp: filter_empty_conv)
    then show ?thesis unfolding ins using True split by simp
  next
    case False
    then show ?thesis unfolding ins using split by simp
  qed
qed

lemma foldl_binary_insert:
  fixes f :: "'a \<Rightarrow> 'b :: linorder"
  assumes "sorted (map f run)"
    and "\<forall>a \<in> set (run @ rest). \<forall>b \<in> set (run @ rest). lt a b = (f a < f b)"
  shows "sorted (map f (foldl (binary_insert lt) run rest))
       \<and> filter (\<lambda>x. f x = k) (foldl (binary_insert lt) run rest)
           = filter (\<lambda>x. f x = k) (run @ rest)
       \<and> mset (foldl (binary_insert lt) run rest) = mset run + mset rest"
  using assms
proof (induction rest arbitrary: run)
  case Nil
  then show ?case by simp
next
  case (Cons x rest)
  have agree: "\<forall>b \<in> set run. lt x b = (f x < f b)" using Cons.prems(2) by simp
  note bi = binary_insert_sorted [where f = f and xs = run and lt = lt and pivot = x,
      OF Cons.prems(1) agree]
  have set_eq: "set (binary_insert lt run x) = insert x (set run)"
    using bi(3) by (metis mset_eq_setD set_append list.set(1,2) mset_append mset.simps
        Un_insert_right sup_bot.right_neutral)
  have "\<forall>a \<in> set (binary_insert lt run x @ rest).
          \<forall>b \<in> set (binary_insert lt run x @ rest). lt a b = (f a < f b)"
    using Cons.prems(2) set_eq by simp
  from Cons.IH [OF bi(1) this] show ?case
    using bi(2) [of k] bi(3) by simp
qed

lemma list_sort_stable:
  fixes f :: "'a \<Rightarrow> 'b :: linorder"
  assumes "\<forall>a \<in> set xs. \<forall>b \<in> set xs. lt a b = (f a < f b)"
  shows "sorted (map f (list_sort lt xs))"
    and "filter (\<lambda>x. f x = k) (list_sort lt xs) = filter (\<lambda>x. f x = k) xs"
    and "mset (list_sort lt xs) = mset xs"
proof -
  obtain run rest where cr: "count_run lt xs = (run, rest)" by (cases "count_run lt xs")
  have ls: "list_sort lt xs = foldl (binary_insert lt) run rest"
    by (simp add: list_sort_def cr)
  have ms: "mset run + mset rest = mset xs" using cr by (rule count_run_append)
  then have "set (run @ rest) = set xs" by (metis mset_append mset_eq_setD)
  with assms have agree: "\<forall>a \<in> set (run @ rest). \<forall>b \<in> set (run @ rest). lt a b = (f a < f b)"
    by simp
  note cs = count_run_sorted [OF cr assms]
  note fb = foldl_binary_insert [OF cs(1) agree]
  show "sorted (map f (list_sort lt xs))" unfolding ls using fb by simp
  show "mset (list_sort lt xs) = mset xs" unfolding ls using fb ms by simp
  show "filter (\<lambda>x. f x = k) (list_sort lt xs) = filter (\<lambda>x. f x = k) xs"
    unfolding ls using fb [of k] cs(2) [of k] by simp
qed

text \<open>On numbers other than NaN the comparisons are those of the places on the line.\<close>

lemma float_lt_rank:
  "a \<noteq> NaN \<Longrightarrow> b \<noteq> NaN \<Longrightarrow> float_lt a b = (float_rank a < float_rank b)"
  by (cases a; cases b) (simp_all add: less_prod_def)

lemma float_rank_eq:
  "a \<noteq> NaN \<Longrightarrow> b \<noteq> NaN \<Longrightarrow> (float_rank a = float_rank b) = (a = b)"
  by (cases a; cases b) simp_all

lemma ts_lt_rank:
  "orderable a \<Longrightarrow> orderable b \<Longrightarrow> ts_lt a b = (ts_rank a < ts_rank b)"
  by (auto simp: orderable_def ts_lt_def ts_rank_def py_lt_def float_lt_rank split: option.splits)

lemma ts_le_rank:
  "orderable a \<Longrightarrow> orderable b \<Longrightarrow> ts_le a b = (ts_rank a \<le> ts_rank b)"
  by (auto simp: orderable_def ts_le_def ts_rank_def py_le_def py_lt_def py_eq_def float_lt_rank
      float_rank_eq le_less split: option.splits)

lemma same_ts_rank:
  "orderable e \<Longrightarrow> exact k \<noteq> NaN \<Longrightarrow> same_ts k e = (ts_rank e = float_rank (exact k))"
  by (auto simp: orderable_def same_ts_def ts_rank_def py_eq_def float_rank_eq split: option.splits)

lemma same_ts_nan:
  "exact k = NaN \<Longrightarrow> same_ts k e = False"
  by (auto simp: same_ts_def py_eq_def split: option.splits)

lemma detect_events_untimed:
  assumes "list_ex (\<lambda>e. ev_timestamp e = None) (batch_events vision loads frames)"
  shows "detect_events vision loads frames = []"
  using assms by (simp add: detect_events_def batch_events_def)

lemma detect_events_sorted:
  assumes "list_all orderable (batch_events vision loads frames)"
  shows "sorted_wrt ts_le (detect_events vision loads frames)"
    and "mset (detect_events vision loads frames) = mset (batch_events vision loads frames)"
    and "filter (same_ts k) (detect_events vision loads frames)
           = filter (same_ts k) (batch_events vision loads frames)"
proof -
  define evs where "evs = batch_events vision loads frames"
  have ord: "\<forall>e \<in> set evs. orderable e"
    using assms by (simp add: evs_def list_all_iff)
  then have "\<not> list_ex (\<lambda>e. ev_timestamp e = None) evs"
    by (auto simp: list_ex_iff orderable_def split: option.splits)
  then have det: "detect_events vision loads frames = list_sort ts_lt evs"
    by (simp add: detect_events_def batch_events_def evs_def)
  have agree: "\<forall>a \<in> set evs. \<forall>b \<in> set evs. ts_lt a b = (ts_rank a < ts_rank b)"
    using ord by (simp add: ts_lt_rank)
  note srt = list_sort_stable [where f = ts_rank, OF agree]
  have ord': "\<forall>e \<in> set (list_sort ts_lt evs). orderable e"
    using ord srt(3) by (metis mset_eq_setD)
  have "sorted_wrt (\<lambda>a b. ts_rank a \<le> ts_rank b) (list_sort ts_lt evs)"
    using srt(1) by (simp add: sorted_map)
  then have "sorted_wrt ts_le (list_sort ts_lt evs)"
    by (rule sorted_wrt_mono_rel [rotated]) (use ord' in \<open>simp add: ts_le_rank\<close>)
  then show "sorted_wrt ts_le (detect_events vision loads frames)"
    by (simp add: det)
  show "mset (detect_events vision loads frames) = mset (batch_events vision loads frames)"
    using srt(3) by (simp add: det evs_def)
  show "filter (same_ts k) (detect_events vision loads frames)
           = filter (same_ts k) (batch_events vision loads frames)"
  proof (cases "exact k = NaN")
    case True
    then show ?thesis by (simp add: same_ts_nan)
  next
    case False
    have "filter (same_ts k) (list_sort ts_lt evs)
        = filter (\<lambda>e. ts_rank e = float_rank (exact k)) (list_sort ts_lt evs)"
      by (rule filter_cong) (use ord' False in \<open>simp_all add: same_ts_rank\<close>)
    also have "\<dots> = filter (\<lambda>e. ts_rank e = float_rank (exact k)) evs"
      by (rule srt(2))
    also have "\<dots> = filter (same_ts k) evs"
      by (rule filter_cong) (use ord False in \<open>simp_all add: same_ts_rank\<close>)
    finally show ?thesis by (simp add: det evs_def)
  qed
qed

lemma frame_batches_Nil: "frame_batches [] = []"
  by (subst frame_batches.simps) simp

lemma frame_batches_single: "frame_batches [x] = [[x]]"
  by (subst frame_batches.simps) (simp add: frame_batches_Nil)

text \<open>
  The differences are rounded as doubles are: at the timestamp \<open>10 ^ 16\<close> the frames
  at \<open>0\<close> and at \<open>1\<close> are equally far, and the first of them is the closest.
\<close>

lemma find_closest_frame_rounds:
  "find_closest_frame (PFloat (Finite 10000000000000000))
     [\<lparr>frame_number = 7, fr_timestamp = PFloat (Finite 0), image = ''''\<rparr>,
      \<lparr>frame_number = 8, fr_timestamp = PFloat (Finite 1), image = ''''\<rparr>] = Some 7"
  by (simp add: find_closest_frame_def py_sub_def to_float_def round_double_def exponent_def
      round_half_even_def py_lt_def exact_def Let_def compute_bitlen)

lemma to_float_PFloat: "to_float (PFloat x) = Some x"
  by (simp add: to_float_def)

lemma to_float_zero: "to_float (PInt 0) = Some (Finite 0)"
  by (simp add: to_float_def round_double_def)

text \<open>
  A timestamp NaN is neither less nor greater than another: the three events decoded
  with the timestamps \<open>2\<close>, NaN, \<open>1\<close> are one ascending run for the sort, which returns
  them as they are.
\<close>

lemma detect_events_nan:
  "map ev_timestamp (detect_events (\<lambda>fs. Some ''[]'') nan_events one_frame)
     = [Some (PFloat (Finite 2)), Some (PFloat NaN), Some (PFloat (Finite 1))]"
  by (simp add: detect_events_def one_frame_def frame_batches_single analyze_frame_batch_def
      py_rfind_def py_slice_def nan_events_def find_closest_frame_def py_sub_def to_float_def
      demo_event_def list_sort_def ts_lt_def py_lt_def exact_def)

text \<open>
  C2, as the code has it.  \<^verbatim>\<open>store_video_analysis\<close> stores the list of events it is
  given as it is, so a read of a live session yields the events in the order they were
  submitted.  The order comes from \<^verbatim>\<open>detect_events\<close>: when an event of its batches has
  no timestamp it returns the empty list; when every event of its batches has a
  timestamp that is a number other than NaN it returns all of them, sorted ascending by
  timestamp, the events of one timestamp in the order of the batches.
\<close>

theorem stored_events_order:
  "(sessions w i = Some s \<and> clock w = t1 ## t2 ## t3 ## t4 ## t5 ## t6 ## t7 ## t8 ## c
      \<and> t1 - last_activity s \<le> session_timeout w \<and> t4 - t2 \<le> session_timeout w
      \<and> t7 - t5 \<le> session_timeout w \<longrightarrow>
      map_option events (fst (get_video_analysis i (store_video_analysis i evs summ g w)))
        = Some evs)
   \<and> (list_ex (\<lambda>e. ev_timestamp e = None) (batch_events vision loads frames) \<longrightarrow>
        detect_events vision loads frames = [])
   \<and> (list_all orderable (batch_events vision loads frames) \<longrightarrow>
        sorted_wrt ts_le (detect_events vision loads frames)
        \<and> mset (detect_events vision loads frames) = mset (batch_events vision loads frames)
        \<and> filter (same_ts k) (detect_events vision loads frames)
            = filter (same_ts k) (batch_events vision loads frames))"
proof (intro conjI impI)
  assume live: "sessions w i = Some s \<and> clock w = t1 ## t2 ## t3 ## t4 ## t5 ## t6 ## t7 ## t8 ## c
      \<and> t1 - last_activity s \<le> session_timeout w \<and> t4 - t2 \<le> session_timeout w
      \<and> t7 - t5 \<le> session_timeout w"
  define H where "H = (let h = conversation_history s @ [analysis_message evs summ t6]
             in if int (length h) > max_history w * 2 then trim (max_history w) h else h)"
  let ?s' = "s\<lparr>video_analysis :=
            Some \<lparr>events = evs, summary = summ, guidelines = g, analyzed_at = t3\<rparr>,
          last_activity := t5, conversation_history := H\<rparr>"
  from live have st: "store_video_analysis i evs summ g w =
     w\<lparr>sessions := (sessions w)(i \<mapsto> ?s'), clock := t7 ## t8 ## c\<rparr>"
    unfolding H_def
    using store_video_analysis_live [of w i s t1 t2 t3 t4 t5 t6 "t7 ## t8 ## c" evs summ g]
    by simp
  have "fst (get_video_analysis i (w\<lparr>sessions := (sessions w)(i \<mapsto> ?s'),
      clock := t7 ## t8 ## c\<rparr>)) = video_analysis ?s'"
    using live by (intro get_video_analysis_live [where ?t1.0 = t7 and ?t2.0 = t8 and c = c]) simp_all
  then show "map_option events (fst (get_video_analysis i (store_video_analysis i evs summ g w)))
        = Some evs"
    unfolding st by simp
next
  assume "list_ex (\<lambda>e. ev_timestamp e = None) (batch_events vision loads frames)"
  then show "detect_events vision loads frames = []"
    by (rule detect_events_untimed)
next
  assume ord: "list_all orderable (batch_events vision loads frames)"
  show "sorted_wrt ts_le (detect_events vision loads frames)"
    and "mset (detect_events vision loads frames) = mset (batch_events vision loads frames)"
    and "filter (same_ts k) (detect_events vision loads frames)
            = filter (same_ts k) (batch_events vision loads frames)"
    by (rule detect_events_sorted [OF ord])+
qed

theorem stored_events_order_witness:
  "map_option events
      (fst (get_video_analysis ''a''
         (store_video_analysis ''a''
            (detect_events (\<lambda>fs. Some ''[]'') three_events one_frame) ''A car'' Map.empty
            (demo_world 10 [] (sconst 0)))))
     = Some (detect_events (\<lambda>fs. Some ''[]'') three_events one_frame)
   \<and> map description (batch_events (\<lambda>fs. Some ''[]'') three_events one_frame)
       = [''late'', ''early'', ''last'']
   \<and> list_all orderable (batch_events (\<lambda>fs. Some ''[]'') three_events one_frame)
   \<and> map description (detect_events (\<lambda>fs. Some ''[]'') three_events one_frame)
       = [''early'', ''late'', ''last'']
   \<and> map ev_timestamp (detect_events (\<lambda>fs. Some ''[]'') three_events one_frame)
       = [Some (PFloat (Finite 1)), Some (PFloat (Finite 2)), Some (PFloat (Finite 2))]
   \<and> sorted_wrt ts_le (detect_events (\<lambda>fs. Some ''[]'') three_events one_frame)
   \<and> map ev_timestamp (batch_events (\<lambda>fs. Some ''[]'') untimed_events one_frame)
       = [Some (PFloat (Finite 2)), None]
   \<and> detect_events (\<lambda>fs. Some ''[]'') untimed_events one_frame = []"
  using stored_events_order [of "demo_world 10 [] (sconst 0)" "''a''" "demo_session []"
      0 0 0 0 0 0 0 0 "sconst 0"
      "detect_events (\<lambda>fs. Some ''[]'') three_events one_frame" "''A car''" Map.empty
      "\<lambda>fs. Some ''[]''" three_events one_frame "PFloat (Finite 2)"]
    stored_events_order [of "demo_world 10 [] (sconst 0)" "''a''" "demo_session []"
      0 0 0 0 0 0 0 0 "sconst 0" "[]" "''A car''" Map.empty
      "\<lambda>fs. Some ''[]''" untimed_events one_frame "PFloat (Finite 1)"]
  by (simp add: demo_world_def demo_session_def stream.expand detect_events_def
      batch_events_def one_frame_def frame_batches_single analyze_frame_batch_def py_rfind_def
      py_slice_def three_events_def untimed_events_def find_closest_frame_def py_sub_def
      to_float_PFloat to_float_zero demo_event_def list_sort_def binary_insert_def bisect.simps
      ts_lt_def py_lt_def exact_def orderable_def ts_le_def same_ts_def py_le_def py_eq_def)

text \<open>
  C2 as stated fails: two events submitted with the timestamps \<open>2, 1\<close> are read back
  in that order, the later one first.
\<close>

theorem stored_events_unsorted_counterexample:
  "map_option (map ev_timestamp \<circ> events)
      (fst (get_video_analysis ''a''
         (store_video_analysis ''a'' [demo_event 2 ''late'', demo_event 1 ''early''] ''A car''
            Map.empty (demo_world 10 [] (sconst 0)))))
     = Some [Some (PFloat (Finite 2)), Some (PFloat (Finite 1))]
   \<and> \<not> py_le (PFloat (Finite 2)) (PFloat (Finite 1))
   \<and> \<not> sorted_wrt ts_le [demo_event 2 ''late'', demo_event 1 ''early'']"
  by (simp add: demo_world_def demo_session_def store_video_analysis_def
      add_message_def get_video_analysis_def get_session_def now_def Let_def demo_event_def
      ts_le_def py_le_def py_lt_def py_eq_def exact_def)

section \<open>The context dictionary\<close>

lemma get_context_live:
  assumes "sessions w i = Some s" and "clock w = t1 ## t2 ## c"
    and "t1 - last_activity s \<le> session_timeout w"
  shows "get_context i w =
     (context_ref s,
      w\<lparr>sessions := (sessions w)(i \<mapsto> s\<lparr>last_activity := t2\<rparr>), clock := c\<rparr>)"
  by (simp add: get_context_def get_session_live [OF assms])

lemma update_context_live:
  assumes "sessions w i = Some s" and "clock w = t1 ## t2 ## c"
    and "t1 - last_activity s \<le> session_timeout w"
  shows "heap (update_context i k v w) = (heap w)(context_ref s := (heap w (context_ref s))(k \<mapsto> v))"
  by (simp add: update_context_def get_session_live [OF assms])

lemma get_context_absent:
  assumes "sessions w i = None"
  shows "get_context i w =
     (next_addr w,
      w\<lparr>heap := (heap w)(next_addr w := Map.empty), next_addr := Suc (next_addr w)\<rparr>)"
  by (simp add: get_context_def get_session_absent [OF assms])

lemma get_context_expired:
  assumes "sessions w i = Some s" and "clock w = t1 ## c"
    and "session_timeout w < t1 - last_activity s"
  shows "get_context i w =
     (next_addr w,
      w\<lparr>sessions := (sessions w)(i := None), clock := c,
        heap := (heap w)(next_addr w := Map.empty), next_addr := Suc (next_addr w)\<rparr>)"
  by (simp add: get_context_def get_session_expired [OF assms])

text \<open>
  The dictionaries in use stay the allocated ones: a new store has no session,
  \<^verbatim>\<open>create_session\<close> gives the new session the next address, and no other operation
  changes the address of a session's dictionary or lowers \<open>next_addr\<close>.
\<close>

lemma allocated_init:
  "init mh minutes c = Some w \<Longrightarrow> allocated w"
  by (auto simp: init_def allocated_def split: if_splits)

lemma allocated_create_session:
  "allocated w \<Longrightarrow> allocated (snd (create_session i w))"
  by (auto simp: create_session_def now_def allocated_def Let_def less_Suc_eq)

lemma allocated_clear_session:
  "allocated w \<Longrightarrow> allocated (clear_session i w)"
  by (auto simp: clear_session_def allocated_def)

lemma get_session_result:
  assumes "get_session i w = (r, w')"
  shows "heap w' = heap w" and "next_addr w' = next_addr w"
    and "r = Some s \<Longrightarrow> sessions w' i = Some s"
    and "sessions w' j = Some s' \<Longrightarrow> \<exists>s0. sessions w j = Some s0 \<and> context_ref s' = context_ref s0"
  using assms
  by (auto simp: get_session_def now_def clear_session_def Let_def
      split: option.splits if_splits)

lemma allocated_get_session:
  assumes "allocated w"
  shows "allocated (snd (get_session i w))"
proof -
  obtain r w' where g: "get_session i w = (r, w')" by (cases "get_session i w")
  show ?thesis
    using assms get_session_result(2,4) [OF g] unfolding allocated_def g by fastforce
qed

lemma allocated_add_message:
  assumes "allocated w"
  shows "allocated (add_message i r ct md w)"
proof -
  obtain q w' where g: "get_session i w = (q, w')" by (cases "get_session i w")
  have a: "allocated w'" using allocated_get_session [OF assms, of i] by (simp add: g)
  show ?thesis
  proof (cases q)
    case None
    with a show ?thesis by (simp add: add_message_def g)
  next
    case (Some s)
    then have "sessions w' i = Some s" using get_session_result(3) [OF g] by simp
    with a have "context_ref s < next_addr w'" by (simp add: allocated_def)
    with a Some show ?thesis
      by (auto simp: add_message_def g now_def Let_def allocated_def)
  qed
qed

lemma allocated_store_video_analysis:
  assumes "allocated w"
  shows "allocated (store_video_analysis i evs summ g w)"
proof -
  obtain q w' where gs: "get_session i w = (q, w')" by (cases "get_session i w")
  have a: "allocated w'" using allocated_get_session [OF assms, of i] by (simp add: gs)
  show ?thesis
  proof (cases q)
    case None
    with a show ?thesis by (simp add: store_video_analysis_def gs)
  next
    case (Some s)
    then have "sessions w' i = Some s" using get_session_result(3) [OF gs] by simp
    with a have "context_ref s < next_addr w'" by (simp add: allocated_def)
    with a have "allocated ((snd (now w'))\<lparr>sessions := (sessions (snd (now w')))(i \<mapsto>
        s\<lparr>video_analysis := Some \<lparr>events = evs, summary = summ, guidelines = g,
             analyzed_at = fst (now w')\<rparr>\<rparr>)\<rparr>)"
      by (auto simp: now_def allocated_def)
    then show ?thesis
      using Some by (simp add: store_video_analysis_def gs Let_def split_beta allocated_add_message)
  qed
qed

lemma allocated_update_context:
  assumes "allocated w"
  shows "allocated (update_context i k v w)"
proof -
  obtain q w' where g: "get_session i w = (q, w')" by (cases "get_session i w")
  have "allocated w'" using allocated_get_session [OF assms, of i] by (simp add: g)
  then show ?thesis
    by (cases q) (auto simp: update_context_def g allocated_def)
qed

lemma allocated_get_context:
  assumes "allocated w"
  shows "allocated (snd (get_context i w))"
proof -
  obtain q w' where g: "get_session i w = (q, w')" by (cases "get_session i w")
  have "allocated w'" using allocated_get_session [OF assms, of i] by (simp add: g)
  then show ?thesis
    by (cases q) (auto simp: get_context_def g allocated_def less_Suc_eq)
qed

lemma allocated_get_conversation_history:
  assumes "allocated w"
  shows "allocated (snd (get_conversation_history i limit w))"
proof -
  obtain q w' where g: "get_session i w = (q, w')" by (cases "get_session i w")
  have "allocated w'" using allocated_get_session [OF assms, of i] by (simp add: g)
  then show ?thesis
    by (cases q) (auto simp: get_conversation_history_def g Let_def split: option.splits)
qed

lemma allocated_get_video_analysis:
  assumes "allocated w"
  shows "allocated (snd (get_video_analysis i w))"
proof -
  obtain q w' where g: "get_session i w = (q, w')" by (cases "get_session i w")
  have "allocated w'" using allocated_get_session [OF assms, of i] by (simp add: g)
  then show ?thesis
    by (cases q) (auto simp: get_video_analysis_def g)
qed

lemma allocated_process_message:
  assumes "allocated w"
  shows "allocated (snd (process_message respond i msg w))"
proof -
  define w1 where "w1 = add_message i ''user'' msg None w"
  define w2 where "w2 = snd (get_conversation_history i (Some 10) w1)"
  define w3 where "w3 = snd (get_video_analysis i w2)"
  define w4 where "w4 = snd (get_context i w3)"
  have a4: "allocated w4"
    unfolding w4_def w3_def w2_def w1_def
    by (intro allocated_get_context allocated_get_video_analysis
        allocated_get_conversation_history allocated_add_message assms)
  have "allocated (update_context_from_conversation i msg r (add_message i ''assistant'' r None w4))"
    for r
    unfolding update_context_from_conversation_def Let_def
    by (simp add: allocated_update_context allocated_add_message a4)
  with a4 show ?thesis
    by (simp add: process_message_def Let_def split_beta w1_def w2_def w3_def w4_def
        split: option.splits)
qed

text \<open>
  C7, as the code has it.  On a live session \<^verbatim>\<open>get_context\<close> returns the session's own
  context dictionary, not a copy: it holds the current context at the read, a later
  \<^verbatim>\<open>update_context\<close> on the session shows through it, and a write into it is a write
  into the stored context.  On an absent session, and on an expired one, which it
  evicts, it returns a new empty dictionary: one at the next free address, which is the
  dictionary of no session of the store, the evicted one included, every other
  dictionary staying as it is.
\<close>

theorem get_context_is_reference:
  "(sessions w i = None \<longrightarrow>
      get_context i w =
        (next_addr w,
         w\<lparr>heap := (heap w)(next_addr w := Map.empty), next_addr := Suc (next_addr w)\<rparr>))
   \<and> (sessions w i = Some s \<and> clock w = t1 ## c \<and> session_timeout w < t1 - last_activity s \<longrightarrow>
        get_context i w =
          (next_addr w,
           w\<lparr>sessions := (sessions w)(i := None), clock := c,
             heap := (heap w)(next_addr w := Map.empty), next_addr := Suc (next_addr w)\<rparr>))
   \<and> (allocated w
        \<and> (sessions w i = None
            \<or> sessions w i = Some s \<and> clock w = t1 ## c \<and> session_timeout w < t1 - last_activity s) \<longrightarrow>
        dict_read (fst (get_context i w)) (snd (get_context i w)) = Map.empty
        \<and> (\<forall>j s'. sessions w j = Some s' \<longrightarrow> context_ref s' \<noteq> fst (get_context i w))
        \<and> (\<forall>a. a \<noteq> fst (get_context i w) \<longrightarrow> heap (snd (get_context i w)) a = heap w a)
        \<and> allocated (snd (get_context i w)))
   \<and> (sessions w i = Some s \<and> clock w = t1 ## t2 ## t3 ## t4 ## c
        \<and> t1 - last_activity s \<le> session_timeout w \<longrightarrow>
        fst (get_context i w) = context_ref s
        \<and> dict_read (fst (get_context i w)) (snd (get_context i w)) = heap w (context_ref s)
        \<and> heap (dict_write (fst (get_context i w)) k v (snd (get_context i w))) (context_ref s)
            = (heap w (context_ref s))(k \<mapsto> v)
        \<and> (t3 - t2 \<le> session_timeout w \<longrightarrow>
             dict_read (fst (get_context i w)) (update_context i k v (snd (get_context i w)))
               = (heap w (context_ref s))(k \<mapsto> v)))"
proof (intro conjI impI)
  assume "sessions w i = None"
  then show "get_context i w =
        (next_addr w,
         w\<lparr>heap := (heap w)(next_addr w := Map.empty), next_addr := Suc (next_addr w)\<rparr>)"
    by (rule get_context_absent)
next
  assume "sessions w i = Some s \<and> clock w = t1 ## c \<and> session_timeout w < t1 - last_activity s"
  then show "get_context i w =
          (next_addr w,
           w\<lparr>sessions := (sessions w)(i := None), clock := c,
             heap := (heap w)(next_addr w := Map.empty), next_addr := Suc (next_addr w)\<rparr>)"
    by (simp add: get_context_expired)
next
  assume h: "allocated w
        \<and> (sessions w i = None
            \<or> sessions w i = Some s \<and> clock w = t1 ## c \<and> session_timeout w < t1 - last_activity s)"
  then have a: "allocated w" by simp
  from h have new: "fst (get_context i w) = next_addr w"
    and hp: "heap (snd (get_context i w)) = (heap w)(next_addr w := Map.empty)"
    by (auto simp: get_context_absent get_context_expired)
  show "dict_read (fst (get_context i w)) (snd (get_context i w)) = Map.empty"
    by (simp add: dict_read_def new hp)
  show "\<forall>j s'. sessions w j = Some s' \<longrightarrow> context_ref s' \<noteq> fst (get_context i w)"
    using a unfolding new allocated_def by fastforce
  show "\<forall>a. a \<noteq> fst (get_context i w) \<longrightarrow> heap (snd (get_context i w)) a = heap w a"
    by (simp add: new hp)
  show "allocated (snd (get_context i w))"
    using a by (rule allocated_get_context)
next
  assume live: "sessions w i = Some s \<and> clock w = t1 ## t2 ## t3 ## t4 ## c
        \<and> t1 - last_activity s \<le> session_timeout w"
  let ?w' = "w\<lparr>sessions := (sessions w)(i \<mapsto> s\<lparr>last_activity := t2\<rparr>), clock := t3 ## t4 ## c\<rparr>"
  have gc: "get_context i w = (context_ref s, ?w')"
    using live get_context_live [of w i s t1 t2 "t3 ## t4 ## c"] by simp
  show "fst (get_context i w) = context_ref s"
    and "dict_read (fst (get_context i w)) (snd (get_context i w)) = heap w (context_ref s)"
    and "heap (dict_write (fst (get_context i w)) k v (snd (get_context i w))) (context_ref s)
            = (heap w (context_ref s))(k \<mapsto> v)"
    by (simp_all add: gc dict_read_def dict_write_def)
  assume "t3 - t2 \<le> session_timeout w"
  then have "heap (update_context i k v ?w')
      = (heap ?w')(context_ref (s\<lparr>last_activity := t2\<rparr>)
           := (heap ?w' (context_ref (s\<lparr>last_activity := t2\<rparr>)))(k \<mapsto> v))"
    by (intro update_context_live [where ?t1.0 = t3 and ?t2.0 = t4 and c = c]) simp_all
  then show "dict_read (fst (get_context i w)) (update_context i k v (snd (get_context i w)))
               = (heap w (context_ref s))(k \<mapsto> v)"
    by (simp add: gc dict_read_def)
qed

theorem get_context_is_reference_witness:
  "fst (get_context ''a'' (demo_world 10 [] (sconst 0))) = 0
   \<and> dict_read (fst (get_context ''a'' (demo_world 10 [] (sconst 0))))
        (snd (get_context ''a'' (demo_world 10 [] (sconst 0)))) = Map.empty
   \<and> dict_read (fst (get_context ''a'' (demo_world 10 [] (sconst 0))))
        (update_context ''a'' ''k'' (PyStr ''v'') (snd (get_context ''a'' (demo_world 10 [] (sconst 0)))))
       = [''k'' \<mapsto> PyStr ''v'']
   \<and> heap (dict_write (fst (get_context ''a'' (demo_world 10 [] (sconst 0)))) ''k'' (PyStr ''v'')
        (snd (get_context ''a'' (demo_world 10 [] (sconst 0))))) 0 = [''k'' \<mapsto> PyStr ''v'']
   \<and> allocated (demo_world 10 [] (sconst 0))
   \<and> fst (get_context ''b'' (demo_world 10 [] (sconst 0))) = 1
   \<and> context_ref (demo_session []) \<noteq> fst (get_context ''b'' (demo_world 10 [] (sconst 0)))
   \<and> allocated (demo_world 10 [] (sconst 1800000001))
   \<and> fst (get_context ''a'' (demo_world 10 [] (sconst 1800000001))) = 1
   \<and> sessions (snd (get_context ''a'' (demo_world 10 [] (sconst 1800000001)))) ''a'' = None
   \<and> dict_read (fst (get_context ''a'' (demo_world 10 [] (sconst 1800000001))))
        (snd (get_context ''a'' (demo_world 10 [] (sconst 1800000001)))) = Map.empty
   \<and> context_ref (demo_session [])
       \<noteq> fst (get_context ''a'' (demo_world 10 [] (sconst 1800000001)))"
  using get_context_is_reference [of "demo_world 10 [] (sconst 0)" "''a''" "demo_session []"
      0 "sconst 0" 0 0 0 "''k''" "PyStr ''v''"]
    get_context_is_reference [of "demo_world 10 [] (sconst 0)" "''b''"]
    get_context_is_reference [of "demo_world 10 [] (sconst 1800000001)" "''a''" "demo_session []"
      1800000001 "sconst 1800000001"]
  by (simp add: demo_world_def demo_session_def get_context_def update_context_def
      get_session_def clear_session_def now_def Let_def dict_read_def dict_write_def
      allocated_def)

text \<open>
  C7 as stated fails: the dictionary returned for session \<open>''a''\<close> has no key \<open>k\<close> at
  the read and has it after a later \<^verbatim>\<open>update_context\<close>; and the stored context has no
  key \<open>k\<close> before the caller writes it into the returned dictionary and has it after.
\<close>

theorem get_context_snapshot_counterexample:
  "dict_read (fst (get_context ''a'' (demo_world 10 [] (sconst 0))))
      (snd (get_context ''a'' (demo_world 10 [] (sconst 0)))) ''k'' = None
   \<and> dict_read (fst (get_context ''a'' (demo_world 10 [] (sconst 0))))
      (update_context ''a'' ''k'' (PyStr ''v'')
         (snd (get_context ''a'' (demo_world 10 [] (sconst 0))))) ''k'' = Some (PyStr ''v'')
   \<and> heap (snd (get_context ''a'' (demo_world 10 [] (sconst 0)))) 0 ''k'' = None
   \<and> heap (dict_write (fst (get_context ''a'' (demo_world 10 [] (sconst 0)))) ''k'' (PyStr ''v'')
        (snd (get_context ''a'' (demo_world 10 [] (sconst 0))))) 0 ''k'' = Some (PyStr ''v'')"
  by (simp add: demo_world_def demo_session_def get_context_def update_context_def
      get_session_def now_def Let_def dict_read_def dict_write_def)

section \<open>The fallback of the event detection\<close>

text \<open>
  The fallback branch: the text has a bracketed span and \<^verbatim>\<open>json.loads\<close> raises
  \<^verbatim>\<open>JSONDecodeError\<close> on it; then every frame of the batch gets its generic event.
\<close>

lemma analyze_frame_batch_fallback:
  assumes "vision frames = Some txt" and "py_find (CHR ''['') txt \<noteq> - 1"
    and "py_rfind (CHR '']'') txt + 1 > py_find (CHR ''['') txt"
    and "loads (py_slice txt (py_find (CHR ''['') txt) (py_rfind (CHR '']'') txt + 1))
           = JSONDecodeError"
  shows "analyze_frame_batch vision loads frames = map fallback_event frames"
  using assms by (simp add: analyze_frame_batch_def Let_def)

text \<open>
  C6.  The fallback is not reached when the text has no bracketed span at all: on the
  answer \<open>''No events detected.''\<close> for a batch of one frame, whatever \<^verbatim>\<open>json.loads\<close>
  does, \<^verbatim>\<open>_analyze_frame_batch\<close> and \<^verbatim>\<open>detect_events\<close> return the empty list, where
  the fallback would give one event.
\<close>

theorem analyze_frame_batch_no_bracket:
  "analyze_frame_batch (\<lambda>fs. Some ''No events detected.'') loads one_frame = []
   \<and> detect_events (\<lambda>fs. Some ''No events detected.'') loads one_frame = []
   \<and> map fallback_event one_frame \<noteq> []"
  by (simp add: analyze_frame_batch_def py_rfind_def detect_events_def frame_batches_single
      one_frame_def list_sort_def)

section \<open>A chat turn whose model call fails\<close>

lemma process_message_apology:
  assumes "\<forall>h va ctx. respond h va ctx msg = None"
  shows "fst (process_message respond i msg w) = apology"
  using assms by (simp add: process_message_def Let_def split: prod.splits)

lemma process_message_failure_live:
  assumes "sessions w i = Some s"
    and "clock w = t1 ## t2 ## t3 ## t4 ## t5 ## t6 ## t7 ## t8 ## t9 ## c"
    and "t1 - last_activity s \<le> session_timeout w" and "t4 - t2 \<le> session_timeout w"
    and "t6 - t5 \<le> session_timeout w" and "t8 - t7 \<le> session_timeout w"
    and "\<forall>h va ctx. respond h va ctx msg = None"
  shows "snd (process_message respond i msg w) =
     w\<lparr>sessions := (sessions w)(i \<mapsto> s\<lparr>conversation_history :=
            (let h = conversation_history s @
                 [\<lparr>role = ''user'', content = msg, timestamp = t3, metadata = Map.empty\<rparr>]
             in if int (length h) > max_history w * 2 then trim (max_history w) h else h),
          last_activity := t9\<rparr>),
        clock := c\<rparr>"
proof -
  define H where "H = (let h = conversation_history s @
                 [\<lparr>role = ''user'', content = msg, timestamp = t3, metadata = Map.empty\<rparr>]
             in if int (length h) > max_history w * 2 then trim (max_history w) h else h)"
  define s1 where "s1 = s\<lparr>last_activity := t2, conversation_history := H\<rparr>"
  define w1 where "w1 = w\<lparr>sessions := (sessions w)(i \<mapsto> s1),
      clock := t4 ## t5 ## t6 ## t7 ## t8 ## t9 ## c\<rparr>"
  define w2 where "w2 = w1\<lparr>sessions := (sessions w1)(i \<mapsto> s1\<lparr>last_activity := t5\<rparr>),
      clock := t6 ## t7 ## t8 ## t9 ## c\<rparr>"
  define w3 where "w3 = w2\<lparr>sessions := (sessions w2)(i \<mapsto> s1\<lparr>last_activity := t7\<rparr>),
      clock := t8 ## t9 ## c\<rparr>"
  define w4 where "w4 = w3\<lparr>sessions := (sessions w3)(i \<mapsto> s1\<lparr>last_activity := t9\<rparr>),
      clock := c\<rparr>"
  have a1: "add_message i ''user'' msg None w = w1"
    unfolding H_def s1_def w1_def
    using add_message_live [OF assms(1) _ assms(3), of t2 t3 "t4 ## t5 ## t6 ## t7 ## t8 ## t9 ## c"
        "''user''" msg None] assms(2)
    by simp
  have g1: "get_session i w1 = (Some (s1\<lparr>last_activity := t5\<rparr>), w2)"
    using assms(4) get_session_live [of w1 i s1 t4 t5 "t6 ## t7 ## t8 ## t9 ## c"]
    by (simp add: w1_def w2_def s1_def)
  have g2: "get_session i w2 = (Some (s1\<lparr>last_activity := t7\<rparr>), w3)"
    using assms(5) get_session_live [of w2 i "s1\<lparr>last_activity := t5\<rparr>" t6 t7 "t8 ## t9 ## c"]
    by (simp add: w1_def w2_def w3_def)
  have g3: "get_session i w3 = (Some (s1\<lparr>last_activity := t9\<rparr>), w4)"
    using assms(6) get_session_live [of w3 i "s1\<lparr>last_activity := t7\<rparr>" t8 t9 c]
    by (simp add: w1_def w2_def w3_def w4_def)
  have "snd (process_message respond i msg w) = w4"
    using assms(7)
    by (simp add: process_message_def a1 get_conversation_history_def get_video_analysis_def
        get_context_def g1 g2 g3 Let_def)
  then show ?thesis
    by (simp add: H_def s1_def w1_def w2_def w3_def w4_def)
qed

text \<open>
  C4, as the code has it.  When the call of the chat model fails, \<^verbatim>\<open>process_message\<close>
  returns the apology instead of raising, on every store.  On a session that stays live
  through the turn, no assistant message is appended and no context dictionary is
  written, but the turn is not undone: the user message appended before the call stays
  in the history (trimmed by the rule of \<^verbatim>\<open>add_message\<close>), and \<open>last_activity\<close> is
  the reading of the last access.
\<close>

theorem process_message_failure:
  "((\<forall>h va ctx. respond h va ctx msg = None) \<longrightarrow>
      fst (process_message respond i msg w) = apology)
   \<and> ((\<forall>h va ctx. respond h va ctx msg = None) \<and> sessions w i = Some s
        \<and> clock w = t1 ## t2 ## t3 ## t4 ## t5 ## t6 ## t7 ## t8 ## t9 ## c
        \<and> t1 - last_activity s \<le> session_timeout w \<and> t4 - t2 \<le> session_timeout w
        \<and> t6 - t5 \<le> session_timeout w \<and> t8 - t7 \<le> session_timeout w \<longrightarrow>
        sessions (snd (process_message respond i msg w)) i =
          Some (s\<lparr>last_activity := t9,
            conversation_history :=
              (let h = conversation_history s @
                   [\<lparr>role = ''user'', content = msg, timestamp = t3, metadata = Map.empty\<rparr>]
               in if int (length h) > max_history w * 2 then trim (max_history w) h else h)\<rparr>)
        \<and> heap (snd (process_message respond i msg w)) = heap w)"
proof (intro conjI impI)
  assume "\<forall>h va ctx. respond h va ctx msg = None"
  then show "fst (process_message respond i msg w) = apology"
    by (rule process_message_apology)
next
  assume h: "(\<forall>h va ctx. respond h va ctx msg = None) \<and> sessions w i = Some s
        \<and> clock w = t1 ## t2 ## t3 ## t4 ## t5 ## t6 ## t7 ## t8 ## t9 ## c
        \<and> t1 - last_activity s \<le> session_timeout w \<and> t4 - t2 \<le> session_timeout w
        \<and> t6 - t5 \<le> session_timeout w \<and> t8 - t7 \<le> session_timeout w"
  then have e: "snd (process_message respond i msg w) =
     w\<lparr>sessions := (sessions w)(i \<mapsto> s\<lparr>conversation_history :=
            (let h = conversation_history s @
                 [\<lparr>role = ''user'', content = msg, timestamp = t3, metadata = Map.empty\<rparr>]
             in if int (length h) > max_history w * 2 then trim (max_history w) h else h),
          last_activity := t9\<rparr>),
        clock := c\<rparr>"
    using process_message_failure_live [of w i s t1 t2 t3 t4 t5 t6 t7 t8 t9 c respond msg] by simp
  show "sessions (snd (process_message respond i msg w)) i =
          Some (s\<lparr>last_activity := t9,
            conversation_history :=
              (let h = conversation_history s @
                   [\<lparr>role = ''user'', content = msg, timestamp = t3, metadata = Map.empty\<rparr>]
               in if int (length h) > max_history w * 2 then trim (max_history w) h else h)\<rparr>)"
    unfolding e by simp
  show "heap (snd (process_message respond i msg w)) = heap w"
    unfolding e by simp
qed

theorem process_message_failure_witness:
  "fst (process_message failing ''a'' ''hello'' (demo_world 10 [] (sconst 0))) = apology
   \<and> map_option conversation_history
       (sessions (snd (process_message failing ''a'' ''hello'' (demo_world 10 [] (sconst 0)))) ''a'')
       = Some [user_msg ''hello'']
   \<and> heap (snd (process_message failing ''a'' ''hello'' (demo_world 10 [] (sconst 0))))
       = heap (demo_world 10 [] (sconst 0))"
  using process_message_failure [of failing "''hello''" "''a''" "demo_world 10 [] (sconst 0)"
      "demo_session []" 0 0 0 0 0 0 0 0 0 "sconst 0"]
  by (simp add: failing_def demo_world_def demo_session_def user_msg_def stream.expand
      Let_def)

text \<open>
  C4 as stated fails: the history of session \<open>''a''\<close> is empty before the failed turn
  and holds the user message after it.
\<close>

theorem process_message_rollback_counterexample:
  "map_option conversation_history (sessions (demo_world 10 [] (sconst 0)) ''a'') = Some []
   \<and> map_option conversation_history
       (sessions (snd (process_message failing ''a'' ''hello'' (demo_world 10 [] (sconst 0)))) ''a'')
       = Some [user_msg ''hello'']"
  by (simp add: failing_def demo_world_def demo_session_def user_msg_def
      process_message_def add_message_def get_conversation_history_def get_video_analysis_def
      get_context_def get_session_def now_def Let_def)

end
